theory Spec2Isabelle
  imports Main "HOL-Library.Word"
begin

unbundle bit_operations_syntax

section \<open>The GEL2 runtime core (trunk/internal.cpp): data model\<close>

text \<open>
  Pointers. A C++ pointer is modelled as a pair of an allocation identifier and a byte
  offset into that allocation; a nullable pointer \<open>T *\<close> is a \<open>ptr option\<close> with
  \<open>None\<close> for the null pointer. Every \<open>new\<close> returns a fresh identifier, so two
  allocations never overlap, and \<open>delete\<close> retires the identifier together with every
  object that was living inside the allocation.

  Trailing underscores of the C++ member names are dropped because Isabelle identifiers
  cannot end in one: \<open>count_\<close> is \<open>o_count\<close>, \<open>first_\<close> is \<open>b_first\<close>,
  \<open>top_\<close> is \<open>p_top\<close>, and a leading underscore is dropped as well
  (\<open>_PtrInc\<close> is \<open>PtrInc\<close>).
\<close>

type_synonym ptr = "nat \<times> nat"

text \<open>
  \<open>_assert\<close> prints \<open>runtime error: message\<close> and calls \<open>_exit(1)\<close>: the process ends
  there. That outcome is the value \<open>Inl (Fatal message)\<close>. \<open>Inl Undefined\<close> stands for
  behaviour the C++ standard leaves undefined (use of a dangling or null pointer, a virtual
  call on storage holding no object of the class, freeing storage that is not a live
  heap allocation).
\<close>

datatype error = Fatal string | Undefined

definition gel_assert :: "bool \<Rightarrow> string \<Rightarrow> error + unit" where
  "gel_assert b message = (if b then Inr () else Inl (Fatal message))"

definition seq :: "error + 'a \<Rightarrow> ('a \<Rightarrow> error + 'b) \<Rightarrow> error + 'b" where
  "seq m f = (case m of Inl e \<Rightarrow> Inl e | Inr x \<Rightarrow> f x)"

text \<open>The build symbols \<open>MEMORY_SAFE\<close> and \<open>EXTRA_SAFE\<close> of the file header.\<close>

record build =
  MEMORY_SAFE :: bool
  EXTRA_SAFE :: bool

text \<open>
  The dynamic class of an object decides its virtual functions:
  \<^item> \<open>Gel2Class\<close>: a compiler-generated class that carries the \<open>GEL2_OBJECT\<close> macro and
    so overrides \<open>_Destroy1\<close> and \<open>_Destroy2\<close>;
  \<^item> \<open>PlainObject\<close>: a class that inherits every virtual function of \<open>Object\<close>;
  \<^item> \<open>StringObj s\<close>: \<open>String\<close> and its subclasses, with the characters \<open>s\<close>;
  \<^item> \<open>PoolObj p\<close>: \<open>PoolObject\<close> with its member \<open>p_\<close>.
\<close>

datatype kind = Gel2Class | PlainObject | StringObj string | PoolObj "ptr option"

text \<open>
  An object carries its dynamic class, its \<open>sizeof\<close> and the member \<open>count_\<close>. The
  count is a C++ \<open>int\<close>: a 32-bit word, read as two's complement by \<open>sint\<close> and
  compared by \<open><s\<close>; where C++ leaves a signed overflow undefined the model wraps around.
\<close>

record obj =
  o_kind :: kind
  o_count :: "32 word"
  o_size :: nat

text \<open>
  What lives at an address: an object derived from \<open>Object\<close>, or a bare
  \<open>_Own<Object>\<close> record (one pointer, no virtual table).
\<close>

datatype cell = Object obj | OwnRecord "ptr option"

text \<open>
  The trace records the destruction events in the order in which they happen:
  the teardown scan calling \<open>_Destroy1\<close> or \<open>_Destroy2\<close> on the object at an address,
  a destructor running to completion, and an allocation being given back.
\<close>

datatype event = Phase1 ptr | Phase2 ptr | Finalize ptr | Release nat

record state =
  heap :: "nat \<rightharpoonup> nat"
  next_id :: nat
  mem :: "ptr \<rightharpoonup> cell"
  exiting :: bool
  trace :: "event list"

definition obj_at :: "state \<Rightarrow> ptr \<Rightarrow> error + obj" where
  "obj_at st p = (case mem st p of Some (Object ob) \<Rightarrow> Inr ob | _ \<Rightarrow> Inl Undefined)"

definition string_at :: "state \<Rightarrow> ptr \<Rightarrow> error + obj" where
  "string_at st p =
     (case mem st p of
        Some (Object ob) \<Rightarrow> (case o_kind ob of StringObj s \<Rightarrow> Inr ob | _ \<Rightarrow> Inl Undefined)
      | _ \<Rightarrow> Inl Undefined)"

definition set_count :: "ptr \<Rightarrow> obj \<Rightarrow> 32 word \<Rightarrow> state \<Rightarrow> state" where
  "set_count p ob c st = st\<lparr>mem := (mem st)(p \<mapsto> Object (ob\<lparr>o_count := c\<rparr>))\<rparr>"

definition emit :: "event \<Rightarrow> state \<Rightarrow> state" where
  "emit ev st = st\<lparr>trace := trace st @ [ev]\<rparr>"

subsection \<open>The allocator backend\<close>

text \<open>
  \<open>new char[n]\<close> and \<open>operator new(n)\<close>: a fresh allocation of \<open>n\<close> bytes. As in
  the source, an allocation is taken to succeed.
\<close>

definition new_chars :: "nat \<Rightarrow> state \<Rightarrow> ptr \<times> state" where
  "new_chars n st =
     ((next_id st, 0), st\<lparr>heap := (heap st)(next_id st \<mapsto> n), next_id := Suc (next_id st)\<rparr>)"

text \<open>
  \<open>operator delete\<close>: the pointer must be the start of a live allocation; the allocation
  and everything stored in it are gone afterwards.
\<close>

definition retire :: "nat \<Rightarrow> state \<Rightarrow> state" where
  "retire i st =
     st\<lparr>heap := (heap st)(i := None), mem := (\<lambda>q. if fst q = i then None else mem st q)\<rparr>"

definition release :: "ptr \<Rightarrow> state \<Rightarrow> error + state" where
  "release p st =
     (if snd p = 0 \<and> heap st (fst p) \<noteq> None
      then Inr (emit (Release (fst p)) (retire (fst p) st))
      else Inl Undefined)"

subsection \<open>\<open>_Object\<close>: the advisory count\<close>

definition PendingDestroy :: "32 word" where
  "PendingDestroy = 0x70000000"

definition PtrInc :: "build \<Rightarrow> ptr \<Rightarrow> state \<Rightarrow> error + state" where
  "PtrInc cfg p st =
     (if MEMORY_SAFE cfg
      then seq (obj_at st p) (\<lambda>ob. Inr (set_count p ob (o_count ob + 1) st))
      else Inr st)"

definition PtrDec :: "build \<Rightarrow> ptr \<Rightarrow> state \<Rightarrow> error + state" where
  "PtrDec cfg p st =
     (if MEMORY_SAFE cfg
      then seq (obj_at st p) (\<lambda>ob.
             seq (if EXTRA_SAFE cfg
                  then gel_assert (0 <s o_count ob) ''internal ref count failure''
                  else Inr ())
               (\<lambda>_. Inr (set_count p ob (o_count ob - 1) st)))
      else Inr st)"

definition DeferDestroy :: "ptr \<Rightarrow> state \<Rightarrow> error + state" where
  "DeferDestroy p st =
     seq (obj_at st p) (\<lambda>ob. Inr (set_count p ob (o_count ob OR PendingDestroy) st))"

definition CheckDeferredDestroy :: "ptr \<Rightarrow> state \<Rightarrow> error + unit" where
  "CheckDeferredDestroy p st =
     seq (obj_at st p) (\<lambda>ob.
       gel_assert (exiting st \<or> o_count ob = PendingDestroy)
         ''outstanding reference to destroyed pool-allocated object'')"

text \<open>
  The destructor chain of an object. The model covers objects whose own members hold no
  other managed value (the destructors of generated classes are not part of this file),
  so what runs is \<open>~_Object\<close>: in a \<open>MEMORY_SAFE\<close> build it asserts that no
  reference is outstanding.
\<close>

definition Object_dtor :: "build \<Rightarrow> ptr \<Rightarrow> state \<Rightarrow> error + state" where
  "Object_dtor cfg p st =
     seq (obj_at st p) (\<lambda>ob.
       seq (if MEMORY_SAFE cfg
            then gel_assert
                   (exiting st \<or> o_count ob = 0 \<or> o_count ob AND PendingDestroy \<noteq> 0)
                   ''outstanding reference to destroyed object''
            else Inr ())
         (\<lambda>_. Inr (emit (Finalize p) st)))"

text \<open>\<open>delete p\<close>: nothing for a null pointer; otherwise the destructor, then the storage.\<close>

definition delete_obj :: "build \<Rightarrow> ptr option \<Rightarrow> state \<Rightarrow> error + state" where
  "delete_obj cfg p st =
     (case p of None \<Rightarrow> Inr st | Some a \<Rightarrow> seq (Object_dtor cfg a st) (release a))"

subsection \<open>\<open>String\<close>: the real count\<close>

definition String_Dec :: "build \<Rightarrow> ptr \<Rightarrow> state \<Rightarrow> error + state" where
  "String_Dec cfg p st =
     seq (string_at st p) (\<lambda>ob.
       seq (if EXTRA_SAFE cfg
            then gel_assert (0 <s o_count ob) ''internal string ref count failure''
            else Inr ())
         (\<lambda>_. Inr (set_count p ob (o_count ob - 1) st)))"

definition RefInc :: "ptr \<Rightarrow> state \<Rightarrow> error + state" where
  "RefInc p st = seq (string_at st p) (\<lambda>ob. Inr (set_count p ob (o_count ob + 1) st))"

definition RefDec :: "build \<Rightarrow> ptr \<Rightarrow> state \<Rightarrow> error + state" where
  "RefDec cfg p st =
     seq (String_Dec cfg p st) (\<lambda>st1.
       seq (string_at st1 p) (\<lambda>ob.
         if o_count ob = 0 then delete_obj cfg (Some p) st1 else Inr st1))"

subsection \<open>The virtual hooks of \<open>Object\<close>, overridden by \<open>String\<close>\<close>

definition is_string :: "obj \<Rightarrow> bool" where
  "is_string ob = (case o_kind ob of StringObj s \<Rightarrow> True | _ \<Rightarrow> False)"

definition OwnRefInc :: "ptr \<Rightarrow> state \<Rightarrow> error + state" where
  "OwnRefInc p st =
     seq (obj_at st p) (\<lambda>ob. if is_string ob then RefInc p st else Inr st)"

definition OwnRefDec :: "build \<Rightarrow> ptr \<Rightarrow> state \<Rightarrow> error + state" where
  "OwnRefDec cfg p st =
     seq (obj_at st p) (\<lambda>ob.
       if is_string ob then RefDec cfg p st else delete_obj cfg (Some p) st)"

definition OwnSub :: "build \<Rightarrow> ptr \<Rightarrow> state \<Rightarrow> error + state" where
  "OwnSub cfg p st =
     seq (obj_at st p) (\<lambda>ob. if is_string ob then String_Dec cfg p st else Inr st)"

section \<open>The pointer wrappers\<close>

text \<open>
  A wrapper object has the single member \<open>p_\<close>; the model passes the member's value in
  (the argument \<open>held\<close>) and returns its new value together with the new state.
\<close>

subsection \<open>\<open>_Own\<close>: an owning pointer\<close>

definition Own_dtor :: "build \<Rightarrow> ptr option \<Rightarrow> state \<Rightarrow> error + state" where
  "Own_dtor cfg held st = delete_obj cfg held st"

definition Own_Take :: "ptr option \<Rightarrow> ptr option \<times> ptr option" where
  "Own_Take held = (held, None)"

text \<open>\<open>operator =\<close>; the result is the new value of the member \<open>p_\<close>.\<close>

definition Own_assign ::
  "build \<Rightarrow> ptr option \<Rightarrow> ptr option \<Rightarrow> state \<Rightarrow> error + (ptr option \<times> state)" where
  "Own_assign cfg held p st =
     (if p \<noteq> held
      then seq (delete_obj cfg held st) (\<lambda>st1. Inr (p, st1))
      else Inr (held, st))"

subsection \<open>\<open>_Ptr\<close>: a non-owning pointer (defined in \<open>MEMORY_SAFE\<close> builds)\<close>

definition Ptr_Init :: "build \<Rightarrow> ptr option \<Rightarrow> state \<Rightarrow> error + (ptr option \<times> state)" where
  "Ptr_Init cfg p st =
     (case p of None \<Rightarrow> Inr (p, st)
      | Some a \<Rightarrow> seq (PtrInc cfg a st) (\<lambda>st1. Inr (p, st1)))"

definition Ptr_dtor :: "build \<Rightarrow> ptr option \<Rightarrow> state \<Rightarrow> error + state" where
  "Ptr_dtor cfg held st =
     (case held of None \<Rightarrow> Inr st
      | Some a \<Rightarrow> if \<not> exiting st then PtrDec cfg a st else Inr st)"

definition Ptr_assign ::
  "build \<Rightarrow> ptr option \<Rightarrow> ptr option \<Rightarrow> state \<Rightarrow> error + (ptr option \<times> state)" where
  "Ptr_assign cfg held p st =
     (if p \<noteq> held
      then seq (case held of None \<Rightarrow> Inr st | Some a \<Rightarrow> PtrDec cfg a st) (\<lambda>st1.
             seq (case p of None \<Rightarrow> Inr st1 | Some b \<Rightarrow> PtrInc cfg b st1) (\<lambda>st2.
               Inr (p, st2)))
      else Inr (held, st))"

subsection \<open>\<open>_Ref\<close>: a pointer to a reference-counted object\<close>

definition Ref_Init :: "ptr option \<Rightarrow> state \<Rightarrow> error + (ptr option \<times> state)" where
  "Ref_Init p st =
     (case p of None \<Rightarrow> Inr (p, st)
      | Some a \<Rightarrow> seq (RefInc a st) (\<lambda>st1. Inr (p, st1)))"

definition Ref_dtor :: "build \<Rightarrow> ptr option \<Rightarrow> state \<Rightarrow> error + state" where
  "Ref_dtor cfg held st = (case held of None \<Rightarrow> Inr st | Some a \<Rightarrow> RefDec cfg a st)"

definition Ref_assign ::
  "build \<Rightarrow> ptr option \<Rightarrow> ptr option \<Rightarrow> state \<Rightarrow> error + (ptr option \<times> state)" where
  "Ref_assign cfg held p st =
     (if p \<noteq> held
      then seq (case held of None \<Rightarrow> Inr st | Some a \<Rightarrow> RefDec cfg a st) (\<lambda>st1.
             seq (case p of None \<Rightarrow> Inr st1 | Some b \<Rightarrow> RefInc b st1) (\<lambda>st2.
               Inr (p, st2)))
      else Inr (held, st))"

text \<open>The copy constructor \<open>_Ref(const _Ref<T> &p)\<close> is \<open>Init(p.p_)\<close>.\<close>

definition Ref_copy :: "ptr option \<Rightarrow> state \<Rightarrow> error + (ptr option \<times> state)" where
  "Ref_copy held st = Ref_Init held st"

subsection \<open>\<open>_OwnRef\<close>: an owning pointer or a reference-counted object\<close>

definition OwnRef_ctor :: "ptr option \<Rightarrow> state \<Rightarrow> error + (ptr option \<times> state)" where
  "OwnRef_ctor p st =
     (case p of None \<Rightarrow> Inr (p, st)
      | Some a \<Rightarrow> seq (OwnRefInc a st) (\<lambda>st1. Inr (p, st1)))"

definition OwnRef_dtor :: "build \<Rightarrow> ptr option \<Rightarrow> state \<Rightarrow> error + state" where
  "OwnRef_dtor cfg held st = (case held of None \<Rightarrow> Inr st | Some a \<Rightarrow> OwnRefDec cfg a st)"

text \<open>\<open>Take\<close>: the returned pointer, the new value of \<open>p_\<close>, and the new state.\<close>

definition OwnRef_Take ::
  "build \<Rightarrow> ptr option \<Rightarrow> state \<Rightarrow> error + (ptr option \<times> ptr option \<times> state)" where
  "OwnRef_Take cfg held st =
     seq (case held of None \<Rightarrow> Inr st | Some a \<Rightarrow> OwnSub cfg a st) (\<lambda>st1.
       Inr (held, None, st1))"

section \<open>The pool allocator\<close>

text \<open>
  \<open>PoolObject\<close>, the object form of an owning placeholder: its two destruction phases.
\<close>

definition PoolObject_Destroy1 ::
  "build \<Rightarrow> obj \<Rightarrow> ptr option \<Rightarrow> state \<Rightarrow> error + (nat \<times> state)" where
  "PoolObject_Destroy1 cfg this held st =
     seq (if MEMORY_SAFE cfg \<and> \<not> exiting st
          then (case held of None \<Rightarrow> Inl Undefined
                | Some a \<Rightarrow> seq (DeferDestroy a st) (Object_dtor cfg a))
          else delete_obj cfg held st)
       (\<lambda>st1. Inr (o_size this, st1))"

definition PoolObject_Destroy2 ::
  "obj \<Rightarrow> ptr option \<Rightarrow> state \<Rightarrow> error + (nat \<times> state)" where
  "PoolObject_Destroy2 this held st =
     (case held of None \<Rightarrow> Inl Undefined
      | Some a \<Rightarrow>
          seq (CheckDeferredDestroy a st) (\<lambda>_.
            seq (release a st) (\<lambda>st1. Inr (o_size this, st1))))"

text \<open>
  The virtual calls \<open>o->_Destroy1()\<close> and \<open>o->_Destroy2()\<close> on the storage at \<open>p\<close>.
  \<open>DESTROY1(_Class)\<close> runs the destructor and returns \<open>sizeof(_Class)\<close>; the versions
  inherited from \<open>Object\<close> fail with \<open>bad pool object\<close>. Storage that holds no
  \<open>Object\<close> has no virtual table to call through.
\<close>

definition Destroy1 :: "build \<Rightarrow> ptr \<Rightarrow> state \<Rightarrow> error + (nat \<times> state)" where
  "Destroy1 cfg p st =
     seq (obj_at st p) (\<lambda>ob.
       case o_kind ob of
         Gel2Class \<Rightarrow> seq (Object_dtor cfg p st) (\<lambda>st1. Inr (o_size ob, st1))
       | PoolObj held \<Rightarrow> PoolObject_Destroy1 cfg ob held st
       | _ \<Rightarrow> Inl (Fatal ''bad pool object''))"

definition Destroy2 :: "ptr \<Rightarrow> state \<Rightarrow> error + (nat \<times> state)" where
  "Destroy2 p st =
     seq (obj_at st p) (\<lambda>ob.
       case o_kind ob of
         Gel2Class \<Rightarrow> Inr (o_size ob, st)
       | PoolObj held \<Rightarrow> PoolObject_Destroy2 ob held st
       | _ \<Rightarrow> Inl (Fatal ''bad pool object''))"

text \<open>
  A \<open>PoolBlock\<close> is one allocation of \<open>BlockSize\<close> bytes: \<open>b_id\<close> names it and
  \<open>b_first\<close> is the member \<open>first_\<close> as a byte offset from the start of the block.
  The member \<open>prev_\<close> is the rest of the list of blocks. The layout constants are those
  of a 64-bit build: \<open>data_\<close> follows two pointers, and an \<open>_Own<Object>\<close> is one pointer.
\<close>

record PoolBlock =
  b_id :: nat
  b_first :: nat

record Pool =
  p_top :: "PoolBlock list"

definition BlockSize :: nat where "BlockSize = 8192"
definition Threshold :: nat where "Threshold = 256"
definition data_offset :: nat where "data_offset = 16"
definition sizeof_Own :: nat where "sizeof_Own = 8"

definition NewBlock :: "Pool \<times> state \<Rightarrow> Pool \<times> state" where
  "NewBlock ps =
     (case ps of (pool, st) \<Rightarrow>
        (case new_chars BlockSize st of (d, st1) \<Rightarrow>
           (pool\<lparr>p_top := \<lparr>b_id = fst d, b_first = BlockSize\<rparr> # p_top pool\<rparr>, st1)))"

definition Pool_ctor :: "state \<Rightarrow> Pool \<times> state" where
  "Pool_ctor st = NewBlock (\<lparr>p_top = []\<rparr>, st)"

text \<open>
  \<open>size_t free = top_->first_ - top_->data_\<close>: the difference of two pointers converted
  to an unsigned 64-bit value.
\<close>

definition free_bytes :: "PoolBlock \<Rightarrow> nat" where
  "free_bytes b =
     (if data_offset \<le> b_first b then b_first b - data_offset
      else 2 ^ 64 - (data_offset - b_first b))"

text \<open>The placement \<open>new (q) _Own<Object>((Object *) d)\<close>.\<close>

definition place_Own :: "ptr \<Rightarrow> ptr \<Rightarrow> state \<Rightarrow> state" where
  "place_Own q d st = st\<lparr>mem := (mem st)(q \<mapsto> OwnRecord (Some d))\<rparr>"

definition Alloc_measure :: "nat \<times> Pool \<times> state \<Rightarrow> nat" where
  "Alloc_measure x =
     (case x of (n, pool, st) \<Rightarrow>
        (case p_top pool of [] \<Rightarrow> 0
         | b # prev \<Rightarrow>
             if n \<le> free_bytes b then 0
             else if free_bytes b < Threshold then 2 else 1))"

function Alloc :: "nat \<Rightarrow> Pool \<times> state \<Rightarrow> error + (ptr \<times> Pool \<times> state)" where
  "Alloc n (pool, st) =
     (case p_top pool of
        [] \<Rightarrow> Inl (Fatal ''can't allocate from pool which is being destroyed'')
      | b # prev \<Rightarrow>
          if n \<le> free_bytes b
          then (if n \<le> b_first b
                then Inr ((b_id b, b_first b - n),
                          pool\<lparr>p_top := b\<lparr>b_first := b_first b - n\<rparr> # prev\<rparr>, st)
                else Inl Undefined)
          else if free_bytes b < Threshold
          then Alloc n (NewBlock (pool, st))
          else (case new_chars n st of (d, st1) \<Rightarrow>
                  seq (Alloc sizeof_Own (pool, st1)) (\<lambda>(q, pool2, st2).
                    Inr (d, pool2, place_Own q d st2))))"
  by pat_completeness auto

termination Alloc
proof (relation "measure Alloc_measure")
  show "wf (measure Alloc_measure)" by simp
next
  fix n :: nat and pool :: Pool and st :: state and b :: PoolBlock and prev :: "PoolBlock list"
  assume "p_top pool = b # prev" "\<not> n \<le> free_bytes b" "free_bytes b < Threshold"
  then show "((n, NewBlock (pool, st)), (n, pool, st)) \<in> measure Alloc_measure"
    by (simp add: Alloc_measure_def NewBlock_def new_chars_def free_bytes_def
        BlockSize_def Threshold_def data_offset_def)
next
  fix n :: nat and pool :: Pool and st st1 :: state and b :: PoolBlock
    and prev :: "PoolBlock list"
  assume "p_top pool = b # prev" "\<not> n \<le> free_bytes b" "\<not> free_bytes b < Threshold"
  then show "((sizeof_Own, pool, st1), (n, pool, st)) \<in> measure Alloc_measure"
    by (simp add: Alloc_measure_def sizeof_Own_def Threshold_def)
qed

declare Alloc.simps [simp del]

subsection \<open>Teardown\<close>

text \<open>
  The body of the \<open>while\<close> loop of \<open>Pool::Destroy\<close> for the storage at \<open>p\<close>: the result is
  the footprint by which the scan advances. Saving and restoring the virtual table pointer
  around \<open>_Destroy1\<close> leaves the dynamic class as it was, which is what the model keeps.
\<close>

definition destroy_step :: "build \<Rightarrow> bool \<Rightarrow> ptr \<Rightarrow> state \<Rightarrow> error + (nat \<times> state)" where
  "destroy_step cfg pass1 p st =
     (if MEMORY_SAFE cfg
      then (if exiting st then Destroy1 cfg p (emit (Phase1 p) st)
            else if pass1
            then seq (DeferDestroy p st) (\<lambda>st1. Destroy1 cfg p (emit (Phase1 p) st1))
            else seq (CheckDeferredDestroy p st) (\<lambda>_. Destroy2 p (emit (Phase2 p) st)))
      else Destroy1 cfg p (emit (Phase1 p) st))"

text \<open>
  The scan of one block from offset \<open>p\<close> to \<open>block_end\<close>. \<open>sizeof\<close> is never zero in
  C++, so a zero footprint can only come from storage that holds no proper object.
\<close>

function scan :: "build \<Rightarrow> bool \<Rightarrow> nat \<Rightarrow> nat \<Rightarrow> state \<Rightarrow> error + state" where
  "scan cfg pass1 b p st =
     (if p < BlockSize
      then (case destroy_step cfg pass1 (b, p) st of
              Inl e \<Rightarrow> Inl e
            | Inr (sz, st1) \<Rightarrow>
                if sz = 0 then Inl Undefined else scan cfg pass1 b (p + sz) st1)
      else Inr st)"
  by pat_completeness auto
termination
  by (relation "measure (\<lambda>(cfg, pass1, b, p, st). BlockSize - p)") auto

declare scan.simps [simp del]

fun Destroy :: "build \<Rightarrow> PoolBlock list \<Rightarrow> bool \<Rightarrow> state \<Rightarrow> error + state" where
  "Destroy cfg [] pass1 st = Inr st"
| "Destroy cfg (b # prev) pass1 st =
     (case scan cfg pass1 (b_id b) (b_first b) st of
        Inl e \<Rightarrow> Inl e
      | Inr st1 \<Rightarrow>
          (case (if MEMORY_SAFE cfg \<longrightarrow> exiting st1 \<or> \<not> pass1
                 then release (b_id b, 0) st1 else Inr st1) of
             Inl e \<Rightarrow> Inl e
           | Inr st2 \<Rightarrow> Destroy cfg prev pass1 st2))"

text \<open>\<open>~Pool\<close>: detach the list of blocks, first pass, then the second pass.\<close>

definition Pool_dtor :: "build \<Rightarrow> Pool \<times> state \<Rightarrow> error + (Pool \<times> state)" where
  "Pool_dtor cfg ps =
     (case ps of (pool, st) \<Rightarrow>
        seq (Destroy cfg (p_top pool) True st) (\<lambda>st1.
          if MEMORY_SAFE cfg \<and> \<not> exiting st1
          then seq (Destroy cfg (p_top pool) False st1) (\<lambda>st2. Inr (pool\<lparr>p_top := []\<rparr>, st2))
          else Inr (pool\<lparr>p_top := []\<rparr>, st1)))"

section \<open>Client code\<close>

text \<open>
  Generated code constructs objects in storage it obtained: the constructor of
  \<open>_Object\<close> (and that of \<open>String\<close>) starts the count at zero.
\<close>

definition construct :: "kind \<Rightarrow> nat \<Rightarrow> ptr \<Rightarrow> state \<Rightarrow> state" where
  "construct k n p st =
     st\<lparr>mem := (mem st)(p \<mapsto> Object \<lparr>o_kind = k, o_count = 0, o_size = n\<rparr>)\<rparr>"

text \<open>\<open>new T\<close> on the heap for a class of kind \<open>k\<close> and size \<open>n\<close>.\<close>

definition new_obj :: "kind \<Rightarrow> nat \<Rightarrow> state \<Rightarrow> ptr \<times> state" where
  "new_obj k n st = (case new_chars n st of (p, st1) \<Rightarrow> (p, construct k n p st1))"

text \<open>
  \<open>new (pool->Alloc(sizeof(T))) T\<close> for a class \<open>T\<close> that carries \<open>GEL2_OBJECT\<close>, and a
  sequence of such allocations, which returns the addresses in allocation order.
\<close>

definition pool_new :: "nat \<Rightarrow> Pool \<times> state \<Rightarrow> error + (ptr \<times> Pool \<times> state)" where
  "pool_new n ps =
     seq (Alloc n ps) (\<lambda>(a, pool1, st1). Inr (a, pool1, construct Gel2Class n a st1))"

fun pool_news :: "nat list \<Rightarrow> Pool \<times> state \<Rightarrow> error + (ptr list \<times> Pool \<times> state)" where
  "pool_news [] ps = Inr ([], ps)"
| "pool_news (n # ns) ps =
     (case pool_new n ps of
        Inl e \<Rightarrow> Inl e
      | Inr (a, ps1) \<Rightarrow>
          (case pool_news ns ps1 of
             Inl e \<Rightarrow> Inl e
           | Inr (as, ps2) \<Rightarrow> Inr (a # as, ps2)))"

definition init_state :: state where
  "init_state = \<lparr>heap = Map.empty, next_id = 1, mem = Map.empty, exiting = False, trace = []\<rparr>"

section \<open>Observations and builds used in the statements\<close>

text \<open>The count of the object at an address, and the same after an operation.\<close>

definition count_of :: "state \<Rightarrow> ptr \<Rightarrow> 32 word option" where
  "count_of st p = (case mem st p of Some (Object ob) \<Rightarrow> Some (o_count ob) | _ \<Rightarrow> None)"

definition count_after :: "ptr \<Rightarrow> error + state \<Rightarrow> error + 32 word option" where
  "count_after p r = map_sum id (\<lambda>st. count_of st p) r"

definition trace_after :: "error + state \<Rightarrow> error + event list" where
  "trace_after r = map_sum id trace r"

text \<open>
  A diagnostic build defines \<open>MEMORY_SAFE\<close>; the checked build defines \<open>EXTRA_SAFE\<close>
  as well; the production build defines neither.
\<close>

definition diagnostic_build :: build where
  "diagnostic_build = \<lparr>MEMORY_SAFE = True, EXTRA_SAFE = False\<rparr>"

definition checked_build :: build where
  "checked_build = \<lparr>MEMORY_SAFE = True, EXTRA_SAFE = True\<rparr>"

definition production_build :: build where
  "production_build = \<lparr>MEMORY_SAFE = False, EXTRA_SAFE = False\<rparr>"

text \<open>\<open>_exiting = true\<close>, as \<open>gel2_runmain2\<close> and \<open>Environment::Exit\<close> do.\<close>

definition set_exiting :: "state \<Rightarrow> state" where
  "set_exiting st = st\<lparr>exiting := True\<rparr>"

text \<open>
  An object on the heap that a \<open>delete\<close> can give back: it starts a live allocation.
\<close>

definition heap_object :: "state \<Rightarrow> ptr \<Rightarrow> bool" where
  "heap_object st a = (snd a = 0 \<and> heap st (fst a) \<noteq> None)"

text \<open>The state right after the value at \<open>a\<close> has been destroyed and its storage released.\<close>

definition destroyed :: "ptr \<Rightarrow> state \<Rightarrow> state" where
  "destroyed a st = emit (Release (fst a)) (retire (fst a) (emit (Finalize a) st))"

section \<open>Handles to one reference-counted value\<close>

text \<open>
  What client code does with \<open>_Ref\<close> handles to the string at \<open>a\<close>:
  \<^item> \<open>Copy\<close>: a new handle is constructed from a handle (or a pointer) to \<open>a\<close>;
  \<^item> \<open>Drop\<close>: a handle that holds \<open>a\<close> is destroyed;
  \<^item> \<open>Reassign p\<close>: a handle that holds \<open>a\<close> is assigned the pointer \<open>p\<close>.
\<close>

datatype ref_op = Copy | Drop | Reassign "ptr option"

definition ref_step :: "build \<Rightarrow> ptr \<Rightarrow> ref_op \<Rightarrow> state \<Rightarrow> error + state" where
  "ref_step cfg a opn st =
     (case opn of
        Copy \<Rightarrow> map_sum id snd (Ref_copy (Some a) st)
      | Drop \<Rightarrow> Ref_dtor cfg (Some a) st
      | Reassign p \<Rightarrow> map_sum id snd (Ref_assign cfg (Some a) p st))"

fun ref_run :: "build \<Rightarrow> ptr \<Rightarrow> ref_op list \<Rightarrow> state \<Rightarrow> error + state" where
  "ref_run cfg a [] st = Inr st"
| "ref_run cfg a (opn # ops) st =
     (case ref_step cfg a opn st of Inl e \<Rightarrow> Inl e | Inr st1 \<Rightarrow> ref_run cfg a ops st1)"

text \<open>
  The number of copy constructions, and the number of destructions and reassignments
  (assigning a handle the pointer it already holds is not a reassignment).
\<close>

fun copies :: "ref_op list \<Rightarrow> nat" where
  "copies [] = 0"
| "copies (Copy # ops) = Suc (copies ops)"
| "copies (opn # ops) = copies ops"

fun drops :: "ptr \<Rightarrow> ref_op list \<Rightarrow> nat" where
  "drops a [] = 0"
| "drops a (Copy # ops) = drops a ops"
| "drops a (Drop # ops) = Suc (drops a ops)"
| "drops a (Reassign p # ops) = (if p = Some a then drops a ops else Suc (drops a ops))"

text \<open>
  A balanced sequence destroys or reassigns only handles that exist: \<open>live\<close> counts the
  handles made by the sequence so far and not yet destroyed or reassigned.
\<close>

fun balanced :: "ptr \<Rightarrow> nat \<Rightarrow> ref_op list \<Rightarrow> bool" where
  "balanced a live [] = True"
| "balanced a live (Copy # ops) = balanced a (Suc live) ops"
| "balanced a live (Drop # ops) = (0 < live \<and> balanced a (live - 1) ops)"
| "balanced a live (Reassign p # ops) =
     (if p = Some a then balanced a live ops else 0 < live \<and> balanced a (live - 1) ops)"

text \<open>The pointers that the reassignments store are null or point to strings.\<close>

definition is_string_at :: "state \<Rightarrow> ptr \<Rightarrow> bool" where
  "is_string_at st b = (case string_at st b of Inr ob \<Rightarrow> True | Inl e \<Rightarrow> False)"

fun targets_ok :: "state \<Rightarrow> ref_op list \<Rightarrow> bool" where
  "targets_ok st [] = True"
| "targets_ok st (Reassign (Some b) # ops) = (is_string_at st b \<and> targets_ok st ops)"
| "targets_ok st (opn # ops) = targets_ok st ops"

subsection \<open>The global strings\<close>

text \<open>
  \<open>GlobalString(s)\<close> runs \<open>String(s)\<close> and then \<open>_RefInc()\<close>. The four global strings
  are static objects: they live at fixed offsets of the static storage (allocation 0,
  which is not a heap allocation), and are initialised in the order of their definitions.
\<close>

definition sizeof_String :: nat where "sizeof_String = 32"

definition GlobalString :: "string \<Rightarrow> ptr \<Rightarrow> state \<Rightarrow> error + state" where
  "GlobalString s p st = RefInc p (construct (StringObj s) sizeof_String p st)"

definition object_string :: ptr where "object_string = (0, 0)"
definition empty_string :: ptr where "empty_string = (0, 32)"
definition true_string :: ptr where "true_string = (0, 64)"
definition false_string :: ptr where "false_string = (0, 96)"

definition static_init :: "state \<Rightarrow> error + state" where
  "static_init st =
     seq (GlobalString ''<object>'' object_string st) (\<lambda>st1.
       seq (GlobalString [] empty_string st1) (\<lambda>st2.
         seq (GlobalString ''True'' true_string st2) (\<lambda>st3.
           GlobalString ''False'' false_string st3)))"

text \<open>The state in which \<open>main\<close> starts: the static objects are initialised.\<close>

definition static_state :: state where
  "static_state = (case static_init init_state of Inr st \<Rightarrow> st | Inl e \<Rightarrow> init_state)"

section \<open>Pools in the statements\<close>

text \<open>
  A block as \<open>NewBlock\<close> and \<open>Alloc\<close> leave it: \<open>first_\<close> lies between \<open>data_\<close> and
  the end of the block, and its allocation was made before the next fresh one. A pool that
  can allocate has a block, and all its blocks are such.
\<close>

definition block_ok :: "state \<Rightarrow> PoolBlock \<Rightarrow> bool" where
  "block_ok st b = (data_offset \<le> b_first b \<and> b_first b \<le> BlockSize \<and> b_id b < next_id st)"

definition pool_ok :: "Pool \<Rightarrow> state \<Rightarrow> bool" where
  "pool_ok pool st = (p_top pool \<noteq> [] \<and> list_all (block_ok st) (p_top pool))"

text \<open>The bytes a fresh block offers, and whether an address lies in a block of the pool.\<close>

definition capacity :: nat where
  "capacity = BlockSize - data_offset"

definition in_pool :: "Pool \<Rightarrow> ptr \<Rightarrow> bool" where
  "in_pool pool a = (fst a \<in> b_id ` set (p_top pool))"

text \<open>
  The result of an allocation of \<open>n\<close> bytes was served by an individual heap allocation
  with a placeholder in the arena: the address returned starts a live allocation of \<open>n\<close>
  bytes outside every block, and the lowest record of the current block is an
  \<open>_Own<Object>\<close> that holds that address.
\<close>

definition served_from_heap :: "nat \<Rightarrow> error + (ptr \<times> Pool \<times> state) \<Rightarrow> bool" where
  "served_from_heap n r =
     (case r of
        Inl e \<Rightarrow> False
      | Inr (d, pool1, st1) \<Rightarrow>
          snd d = 0 \<and> \<not> in_pool pool1 d \<and> heap st1 (fst d) = Some n
          \<and> (case p_top pool1 of
                [] \<Rightarrow> False
              | t # prev \<Rightarrow> mem st1 (b_id t, b_first t) = Some (OwnRecord (Some d))))"

text \<open>A further allocation from the pool that an allocation returned.\<close>

definition then_Alloc ::
  "nat \<Rightarrow> error + (ptr \<times> Pool \<times> state) \<Rightarrow> error + (ptr \<times> Pool \<times> state)" where
  "then_Alloc n r = seq r (\<lambda>(a, ps). Alloc n ps)"

text \<open>Tearing down the pool that a sequence of client allocations returned.\<close>

definition then_Pool_dtor ::
  "build \<Rightarrow> error + ('a \<times> Pool \<times> state) \<Rightarrow> error + (Pool \<times> state)" where
  "then_Pool_dtor cfg r = seq r (\<lambda>(a, ps). Pool_dtor cfg ps)"

section \<open>Arenas that hold objects\<close>

text \<open>The dynamic class and the size of the object at an address.\<close>

definition sig_at :: "state \<Rightarrow> ptr \<Rightarrow> (kind \<times> nat) option" where
  "sig_at st a =
     (case mem st a of Some (Object ob) \<Rightarrow> Some (o_kind ob, o_size ob) | _ \<Rightarrow> None)"

text \<open>
  \<open>tiled st i p as\<close>: from offset \<open>p\<close> to its end, the block \<open>i\<close> holds exactly the
  objects at the addresses \<open>as\<close>, in address order and back to back, each of a class
  with \<open>GEL2_OBJECT\<close> and each of a positive size.
\<close>

fun tiled :: "state \<Rightarrow> nat \<Rightarrow> nat \<Rightarrow> ptr list \<Rightarrow> bool" where
  "tiled st i p [] = (p = BlockSize)"
| "tiled st i p (a # as) =
     (a = (i, p) \<and> p < BlockSize \<and>
      (case sig_at st a of
         Some (k, sz) \<Rightarrow> k = Gel2Class \<and> 0 < sz \<and> tiled st i (p + sz) as
       | None \<Rightarrow> False))"

text \<open>
  \<open>pool_tiled st bs Ls\<close>: the blocks \<open>bs\<close> are distinct live allocations, and each holds,
  from its \<open>first_\<close> on, the objects of the corresponding list of \<open>Ls\<close>.
\<close>

fun pool_tiled :: "state \<Rightarrow> PoolBlock list \<Rightarrow> ptr list list \<Rightarrow> bool" where
  "pool_tiled st [] Ls = (Ls = [])"
| "pool_tiled st (b # bs) Ls =
     (case Ls of
        [] \<Rightarrow> False
      | L # Ls1 \<Rightarrow>
          tiled st (b_id b) (b_first b) L \<and> heap st (b_id b) \<noteq> None
          \<and> b_id b \<notin> b_id ` set bs \<and> pool_tiled st bs Ls1)"

text \<open>
  A request that is served from a block: it is positive (\<open>sizeof\<close> is never zero) and
  it fits the current block, or fewer than \<open>Threshold\<close> bytes are free there and it
  fits a fresh block. \<open>all_fit\<close> says so of every request of a sequence of client
  allocations, each in the pool as the previous ones left it.
\<close>

definition fits_block :: "nat \<Rightarrow> Pool \<Rightarrow> bool" where
  "fits_block n pool =
     (case p_top pool of
        [] \<Rightarrow> False
      | b # prev \<Rightarrow>
          0 < n \<and> (n \<le> free_bytes b \<or> (free_bytes b < Threshold \<and> n \<le> capacity)))"

fun all_fit :: "nat list \<Rightarrow> Pool \<times> state \<Rightarrow> bool" where
  "all_fit [] ps = True"
| "all_fit (n # ns) ps =
     (fits_block n (fst ps) \<and>
      (case pool_new n ps of Inl e \<Rightarrow> False | Inr (a, ps1) \<Rightarrow> all_fit ns ps1))"

text \<open>The addresses on which the scan called \<open>_Destroy1\<close>, in the order of the calls.\<close>

fun phase1_visits :: "event list \<Rightarrow> ptr list" where
  "phase1_visits [] = []"
| "phase1_visits (Phase1 a # evs) = a # phase1_visits evs"
| "phase1_visits (ev # evs) = phase1_visits evs"

definition visits_after :: "error + (Pool \<times> state) \<Rightarrow> error + ptr list" where
  "visits_after r = map_sum id (\<lambda>(pool, st). phase1_visits (trace st)) r"

text \<open>
  The events of the first pass over objects, and of the second pass over blocks with
  their objects: in the second pass a block is released after its objects were checked.
\<close>

fun phase1_trace :: "ptr list \<Rightarrow> event list" where
  "phase1_trace [] = []"
| "phase1_trace (a # as) = Phase1 a # Finalize a # phase1_trace as"

fun phase2_trace :: "PoolBlock list \<Rightarrow> ptr list list \<Rightarrow> event list" where
  "phase2_trace (b # bs) (L # Ls) = map Phase2 L @ Release (b_id b) # phase2_trace bs Ls"
| "phase2_trace bs Ls = []"

text \<open>
  The events of a teardown that makes a single pass: each block is released right after
  its objects were finalised.
\<close>

fun single_pass_trace :: "PoolBlock list \<Rightarrow> ptr list list \<Rightarrow> event list" where
  "single_pass_trace (b # bs) (L # Ls)
     = phase1_trace L @ Release (b_id b) # single_pass_trace bs Ls"
| "single_pass_trace bs Ls = []"

text \<open>The trace after a teardown.\<close>

definition teardown_trace :: "error + (Pool \<times> state) \<Rightarrow> error + event list" where
  "teardown_trace r = map_sum id (\<lambda>(pool, st). trace st) r"

text \<open>
  What the first pass over the objects \<open>L\<close> does to the state: it finalises them in
  turn, releases nothing, keeps every class and size, and in the two-pass mode it marks
  the count of each of them with the pending-destroy bits.
\<close>

definition pass1_post :: "build \<Rightarrow> ptr list \<Rightarrow> state \<Rightarrow> state \<Rightarrow> bool" where
  "pass1_post cfg L st st1 =
     (trace st1 = trace st @ phase1_trace L
      \<and> heap st1 = heap st \<and> exiting st1 = exiting st
      \<and> (\<forall>q. sig_at st1 q = sig_at st q)
      \<and> (\<forall>q. count_of st1 q =
             (if MEMORY_SAFE cfg \<and> \<not> exiting st \<and> q \<in> set L
              then map_option (\<lambda>c. c OR PendingDestroy) (count_of st q)
              else count_of st q)))"

section \<open>Basic facts\<close>

lemma sint_pred: "(0::32 word) <s c \<Longrightarrow> sint (c - 1) = sint c - 1"
proof -
  assume "0 <s c"
  then have pos: "0 < sint c" by (simp add: word_sless_alt)
  have ub: "sint c < 2 ^ 31" using sint_lt[of c] by simp
  have "sint (c - 1) = signed_take_bit 31 (sint c - sint (1::32 word))"
    by (simp add: sint_word_diff)
  also have "\<dots> = signed_take_bit 31 (sint c - 1)" by simp
  also have "\<dots> = sint c - 1"
    using pos ub by (simp add: signed_take_bit_int_eq_self)
  finally show ?thesis .
qed

lemma dec_nonneg: "(0::32 word) <s c \<Longrightarrow> 0 \<le>s c - 1"
  using sint_pred[of c] by (simp add: word_sle_eq word_sless_alt)

lemma count_of_set_count [simp]: "count_of (set_count p ob c st) p = Some c"
  by (simp add: count_of_def set_count_def)

lemma obj_at_count_of: "obj_at st p = Inr ob \<Longrightarrow> count_of st p = Some (o_count ob)"
  by (auto simp: obj_at_def count_of_def split: option.splits cell.splits)

lemma string_at_obj_at: "string_at st p = Inr ob \<Longrightarrow> obj_at st p = Inr ob"
  by (auto simp: obj_at_def string_at_def split: option.splits cell.splits kind.splits)

lemma string_at_is_string: "string_at st a = Inr ob \<Longrightarrow> is_string ob"
  by (auto simp: string_at_def is_string_def split: option.splits cell.splits kind.splits)

lemma string_at_set_count:
  "string_at st a = Inr ob \<Longrightarrow> string_at (set_count a ob c st) a = Inr (ob\<lparr>o_count := c\<rparr>)"
  by (auto simp: string_at_def set_count_def split: option.splits cell.splits kind.splits)

lemma obj_at_set_count [simp]:
  "obj_at (set_count a ob c st) a = Inr (ob\<lparr>o_count := c\<rparr>)"
  by (simp add: obj_at_def set_count_def)

lemma set_count_fields [simp]:
  "heap (set_count a ob c st) = heap st"
  "trace (set_count a ob c st) = trace st"
  "exiting (set_count a ob c st) = exiting st"
  "next_id (set_count a ob c st) = next_id st"
  "heap_object (set_count a ob c st) q = heap_object st q"
  by (simp_all add: set_count_def heap_object_def)

lemma set_count_twice [simp]:
  "set_count a ob' c' (set_count a ob c st) = set_count a ob' c' st"
  by (simp add: set_count_def)

lemma set_count_upd [simp]: "set_count a (ob\<lparr>o_count := c'\<rparr>) c st = set_count a ob c st"
  by (simp add: set_count_def)

lemma retire_fields [simp]:
  "mem (retire i st) q = (if fst q = i then None else mem st q)"
  "heap (retire i st) = (heap st)(i := None)"
  "trace (retire i st) = trace st"
  "exiting (retire i st) = exiting st"
  "next_id (retire i st) = next_id st"
  by (simp_all add: retire_def)

lemma emit_fields [simp]:
  "mem (emit ev st) = mem st"
  "heap (emit ev st) = heap st"
  "trace (emit ev st) = trace st @ [ev]"
  "exiting (emit ev st) = exiting st"
  "next_id (emit ev st) = next_id st"
  by (simp_all add: emit_def)

lemma mem_set_count [simp]:
  "mem (set_count a ob c st) q = (if q = a then Some (Object (ob\<lparr>o_count := c\<rparr>)) else mem st q)"
  by (simp add: set_count_def)

subsection \<open>\<open>delete\<close>\<close>

lemma delete_obj_ok:
  assumes "obj_at st a = Inr ob" "heap_object st a"
    and "MEMORY_SAFE cfg \<Longrightarrow> exiting st \<or> o_count ob = 0 \<or> o_count ob AND PendingDestroy \<noteq> 0"
  shows "delete_obj cfg (Some a) st = Inr (destroyed a st)"
  using assms
  by (auto simp: delete_obj_def Object_dtor_def seq_def gel_assert_def release_def emit_def
      heap_object_def destroyed_def retire_def)

lemma destroyed_simps [simp]:
  "mem (destroyed a st) q = (if fst q = fst a then None else mem st q)"
  "trace (destroyed a st) = trace st @ [Finalize a, Release (fst a)]"
  "heap (destroyed a st) = (heap st)(fst a := None)"
  "exiting (destroyed a st) = exiting st"
  "next_id (destroyed a st) = next_id st"
  by (simp_all add: destroyed_def emit_def retire_def)

lemma delete_obj_fatal:
  assumes "MEMORY_SAFE cfg" "\<not> exiting st" "obj_at st a = Inr ob"
    and "o_count ob \<noteq> 0" "o_count ob AND PendingDestroy = 0"
  shows "delete_obj cfg (Some a) st = Inl (Fatal ''outstanding reference to destroyed object'')"
  using assms
  by (simp add: delete_obj_def Object_dtor_def seq_def gel_assert_def)

lemma destroyed_set_count [simp]:
  "destroyed a (set_count a ob c st) = destroyed a st"
  by (rule state.equality) (auto simp: destroyed_def fun_eq_iff)

subsection \<open>Steps on handles to one string\<close>


lemma RefInc_string:
  "string_at st a = Inr ob \<Longrightarrow> RefInc a st = Inr (set_count a ob (o_count ob + 1) st)"
  by (simp add: RefInc_def seq_def)







lemma string_at_mem: "string_at st a = Inr ob \<Longrightarrow> mem st a = Some (Object ob)"
  by (auto simp: string_at_def split: option.splits cell.splits kind.splits)


lemma sint_count_int:
  fixes c :: "32 word"
  assumes "- (2 ^ 31) \<le> sint c + int n - int m" and "sint c + int n - int m < 2 ^ 31"
  shows "sint (c + of_nat n - of_nat m) = sint c + int n - int m"
proof -
  have "sint (c + of_nat n - of_nat m :: 32 word) = sint (word_of_int (sint c + int n - int m) :: 32 word)"
    by simp
  also have "\<dots> = signed_take_bit 31 (sint c + int n - int m)"
    by (simp only: sint_sbintrunc') simp
  also have "\<dots> = sint c + int n - int m"
    using assms by (simp add: signed_take_bit_int_eq_self)
  finally show ?thesis .
qed

subsection \<open>Balanced sequences and the global strings\<close>

lemma sint_succ:
  fixes c :: "32 word"
  assumes "0 \<le> sint c" and "sint c + 1 < 2 ^ 31"
  shows "sint (c + 1) = sint c + 1"
  using sint_count_int[of c 1 0] assms by simp

lemma sint_pos_sless: "0 < sint (c :: 32 word) \<Longrightarrow> 0 <s c"
  by (simp add: word_sless_alt)

lemma is_string_at_set_count:
  "string_at st a = Inr ob \<Longrightarrow> is_string_at (set_count a ob c st) b = is_string_at st b"
  by (cases "b = a") (auto simp: is_string_at_def string_at_def split: option.splits cell.splits kind.splits)

lemma targets_ok_cong:
  "(\<And>b. is_string_at st1 b = is_string_at st b) \<Longrightarrow> targets_ok st1 ops = targets_ok st ops"
  by (induction st ops rule: targets_ok.induct) simp_all

lemma targets_ok_set_count:
  "string_at st a = Inr ob \<Longrightarrow> targets_ok (set_count a ob c st) ops = targets_ok st ops"
  by (rule targets_ok_cong) (rule is_string_at_set_count)

lemma RefDec_keep:
  assumes "string_at st a = Inr ob" and "1 < sint (o_count ob)"
  shows "RefDec cfg a st = Inr (set_count a ob (o_count ob - 1) st)"
    and "sint (o_count ob - 1) = sint (o_count ob) - 1"
proof -
  have pos: "0 <s o_count ob" using assms(2) by (simp add: word_sless_alt)
  show s: "sint (o_count ob - 1) = sint (o_count ob) - 1" by (rule sint_pred[OF pos])
  have "o_count ob - 1 \<noteq> 0"
  proof
    assume "o_count ob - 1 = 0"
    then have "sint (o_count ob - 1) = 0" by simp
    with s assms(2) show False by simp
  qed
  with assms(1) pos show "RefDec cfg a st = Inr (set_count a ob (o_count ob - 1) st)"
    by (simp add: RefDec_def String_Dec_def seq_def gel_assert_def string_at_set_count)
qed

lemma balanced_run:
  assumes "string_at st a = Inr ob" and "int live < sint (o_count ob)"
    and "sint (o_count ob) + int (length ops) < 2 ^ 31"
    and "balanced a live ops" and "targets_ok st ops"
  shows "\<exists>st1 ob1. ref_run cfg a ops st = Inr st1 \<and> string_at st1 a = Inr ob1
           \<and> sint (o_count ob1) = sint (o_count ob) + int (copies ops) - int (drops a ops)
           \<and> 0 < sint (o_count ob1) \<and> trace st1 = trace st"
  using assms
proof (induction ops arbitrary: st ob live)
  case Nil
  then show ?case by simp
next
  case (Cons opn ops)
  have dec_step: "\<exists>st1 ob1. ref_run cfg a ops st2 = Inr st1 \<and> string_at st1 a = Inr ob1
           \<and> sint (o_count ob1) = sint (o_count ob) - 1 + int (copies ops) - int (drops a ops)
           \<and> 0 < sint (o_count ob1) \<and> trace st1 = trace st2"
    if live: "0 < live" and bal: "balanced a (live - 1) ops" and tok: "targets_ok st2 ops"
      and s2: "string_at st2 a = Inr (ob\<lparr>o_count := o_count ob - 1\<rparr>)" for st2
  proof -
    from live Cons.prems(2) have big: "1 < sint (o_count ob)" by simp
    note k = RefDec_keep[OF Cons.prems(1) big]
    have "int (live - 1) < sint (o_count (ob\<lparr>o_count := o_count ob - 1\<rparr>))"
      using k(2) Cons.prems(2) live by simp
    moreover have "sint (o_count (ob\<lparr>o_count := o_count ob - 1\<rparr>)) + int (length ops) < 2 ^ 31"
      using k(2) Cons.prems(3) by simp
    ultimately show ?thesis
      using Cons.IH[OF s2 _ _ bal tok] k(2) by simp
  qed
  show ?case
  proof (cases opn)
    case Copy
    let ?st2 = "set_count a ob (o_count ob + 1) st"
    have nn: "0 \<le> sint (o_count ob)" using Cons.prems(2) by simp
    have s: "sint (o_count ob + 1) = sint (o_count ob) + 1"
      using sint_succ[OF nn] Cons.prems(3) by simp
    have step: "ref_step cfg a Copy st = Inr ?st2"
      using Cons.prems(1) by (simp add: ref_step_def Ref_copy_def Ref_Init_def seq_def RefInc_string)
    have s2: "string_at ?st2 a = Inr (ob\<lparr>o_count := o_count ob + 1\<rparr>)"
      using Cons.prems(1) by (simp add: string_at_set_count)
    have "\<exists>st1 ob1. ref_run cfg a ops ?st2 = Inr st1 \<and> string_at st1 a = Inr ob1
           \<and> sint (o_count ob1) = sint (o_count (ob\<lparr>o_count := o_count ob + 1\<rparr>)) + int (copies ops) - int (drops a ops)
           \<and> 0 < sint (o_count ob1) \<and> trace st1 = trace ?st2"
    proof (rule Cons.IH[OF s2, of "Suc live"])
      show "int (Suc live) < sint (o_count (ob\<lparr>o_count := o_count ob + 1\<rparr>))"
        using s Cons.prems(2) by simp
      show "sint (o_count (ob\<lparr>o_count := o_count ob + 1\<rparr>)) + int (length ops) < 2 ^ 31"
        using s Cons.prems(3) by simp
      show "balanced a (Suc live) ops" using Cons.prems(4) Copy by simp
      show "targets_ok ?st2 ops"
        using Cons.prems(5) Copy by (simp add: targets_ok_set_count[OF Cons.prems(1)])
    qed
    with step s Copy show ?thesis by auto
  next
    case Drop
    let ?st2 = "set_count a ob (o_count ob - 1) st"
    from Drop Cons.prems(4) have live: "0 < live" and bal: "balanced a (live - 1) ops"
      by simp_all
    from live Cons.prems(2) have big: "1 < sint (o_count ob)" by simp
    have step: "ref_step cfg a Drop st = Inr ?st2"
      using RefDec_keep(1)[OF Cons.prems(1) big] by (simp add: ref_step_def Ref_dtor_def)
    have tok: "targets_ok ?st2 ops"
      using Cons.prems(5) Drop by (simp add: targets_ok_set_count[OF Cons.prems(1)])
    have s2: "string_at ?st2 a = Inr (ob\<lparr>o_count := o_count ob - 1\<rparr>)"
      using Cons.prems(1) by (simp add: string_at_set_count)
    from dec_step[OF live bal tok s2] step Drop show ?thesis by auto
  next
    case (Reassign p)
    show ?thesis
    proof (cases "p = Some a")
      case True
      have step: "ref_step cfg a (Reassign p) st = Inr st"
        using True by (simp add: ref_step_def Ref_assign_def)
      have "balanced a live ops" "targets_ok st ops"
        using Cons.prems(4,5) Reassign True by simp_all
      moreover have "sint (o_count ob) + int (length ops) < 2 ^ 31"
        using Cons.prems(3) by simp
      ultimately have "\<exists>st1 ob1. ref_run cfg a ops st = Inr st1 \<and> string_at st1 a = Inr ob1
           \<and> sint (o_count ob1) = sint (o_count ob) + int (copies ops) - int (drops a ops)
           \<and> 0 < sint (o_count ob1) \<and> trace st1 = trace st"
        using Cons.IH[OF Cons.prems(1,2)] by blast
      with step Reassign True show ?thesis by auto
    next
      case False
      let ?st2 = "set_count a ob (o_count ob - 1) st"
      from False Reassign Cons.prems(4) have live: "0 < live" and bal: "balanced a (live - 1) ops"
        by simp_all
      from live Cons.prems(2) have big: "1 < sint (o_count ob)" by simp
      note dec = RefDec_keep(1)[OF Cons.prems(1) big]
      have s2: "string_at ?st2 a = Inr (ob\<lparr>o_count := o_count ob - 1\<rparr>)"
        using Cons.prems(1) by (simp add: string_at_set_count)
      show ?thesis
      proof (cases p)
        case None
        have step: "ref_step cfg a (Reassign p) st = Inr ?st2"
          using dec None by (simp add: ref_step_def Ref_assign_def seq_def)
        have tok: "targets_ok ?st2 ops"
          using Cons.prems(5) Reassign None by (simp add: targets_ok_set_count[OF Cons.prems(1)])
        from dec_step[OF live bal tok s2] step Reassign False show ?thesis by auto
      next
        case (Some b)
        with False have ba: "b \<noteq> a" by simp
        from Cons.prems(5) Reassign Some have isb: "is_string_at st b" and tok0: "targets_ok st ops"
          by simp_all
        from isb have "is_string_at ?st2 b"
          by (simp add: is_string_at_set_count[OF Cons.prems(1)])
        then obtain obb where sb: "string_at ?st2 b = Inr obb"
          by (auto simp: is_string_at_def split: sum.splits)
        let ?st3 = "set_count b obb (o_count obb + 1) ?st2"
        have step: "ref_step cfg a (Reassign p) st = Inr ?st3"
          using dec Some False sb by (simp add: ref_step_def Ref_assign_def seq_def RefInc_string)
        have tok: "targets_ok ?st3 ops"
          using tok0 by (simp add: targets_ok_set_count[OF sb] targets_ok_set_count[OF Cons.prems(1)])
        have s3: "string_at ?st3 a = Inr (ob\<lparr>o_count := o_count ob - 1\<rparr>)"
          using s2 ba by (simp add: string_at_def)
        from dec_step[OF live bal tok s3] step Reassign False show ?thesis by auto
      qed
    qed
  qed
qed

lemma GlobalString_result:
  "GlobalString s p st
     = Inr (set_count p \<lparr>o_kind = StringObj s, o_count = 0, o_size = sizeof_String\<rparr> 1
              (construct (StringObj s) sizeof_String p st))"
  by (simp add: GlobalString_def RefInc_def seq_def string_at_def construct_def)

lemma string_at_GlobalString:
  "GlobalString s p st = Inr st1 \<Longrightarrow>
     string_at st1 q = (if q = p then Inr \<lparr>o_kind = StringObj s, o_count = 1, o_size = sizeof_String\<rparr>
                        else string_at st q)"
  by (auto simp: GlobalString_result string_at_def construct_def)

lemma trace_GlobalString: "GlobalString s p st = Inr st1 \<Longrightarrow> trace st1 = trace st"
  by (auto simp: GlobalString_result construct_def)

lemma static_init_strings:
  assumes "static_init st = Inr st0"
  shows "string_at st0 object_string
           = Inr \<lparr>o_kind = StringObj ''<object>'', o_count = 1, o_size = sizeof_String\<rparr>"
    and "string_at st0 empty_string
           = Inr \<lparr>o_kind = StringObj [], o_count = 1, o_size = sizeof_String\<rparr>"
    and "string_at st0 true_string
           = Inr \<lparr>o_kind = StringObj ''True'', o_count = 1, o_size = sizeof_String\<rparr>"
    and "string_at st0 false_string
           = Inr \<lparr>o_kind = StringObj ''False'', o_count = 1, o_size = sizeof_String\<rparr>"
proof -
  from assms obtain st1 st2 st3 where
    g1: "GlobalString ''<object>'' object_string st = Inr st1" and
    g2: "GlobalString [] empty_string st1 = Inr st2" and
    g3: "GlobalString ''True'' true_string st2 = Inr st3" and
    g4: "GlobalString ''False'' false_string st3 = Inr st0"
    by (auto simp: static_init_def seq_def split: sum.splits)
  note s = string_at_GlobalString[OF g1] string_at_GlobalString[OF g2]
    string_at_GlobalString[OF g3] string_at_GlobalString[OF g4]
  show "string_at st0 object_string
           = Inr \<lparr>o_kind = StringObj ''<object>'', o_count = 1, o_size = sizeof_String\<rparr>"
    "string_at st0 empty_string
           = Inr \<lparr>o_kind = StringObj [], o_count = 1, o_size = sizeof_String\<rparr>"
    "string_at st0 true_string
           = Inr \<lparr>o_kind = StringObj ''True'', o_count = 1, o_size = sizeof_String\<rparr>"
    "string_at st0 false_string
           = Inr \<lparr>o_kind = StringObj ''False'', o_count = 1, o_size = sizeof_String\<rparr>"
    by (simp_all add: s object_string_def empty_string_def true_string_def false_string_def)
qed

lemma static_init_succeeds: "\<exists>st0. static_init st = Inr st0"
  by (simp add: static_init_def seq_def GlobalString_result)

subsection \<open>The three branches of \<open>Alloc\<close>\<close>

lemma free_bytes_ok: "block_ok st b \<Longrightarrow> free_bytes b = b_first b - data_offset"
  by (simp add: block_ok_def free_bytes_def)

lemma Alloc_fits:
  assumes "p_top pool = b # prev" and "n \<le> free_bytes b" and "n \<le> b_first b"
  shows "Alloc n (pool, st)
           = Inr ((b_id b, b_first b - n), pool\<lparr>p_top := b\<lparr>b_first := b_first b - n\<rparr> # prev\<rparr>, st)"
  using assms by (subst Alloc.simps) simp

lemma Alloc_retry:
  assumes "p_top pool = b # prev" and "\<not> n \<le> free_bytes b" and "free_bytes b < Threshold"
  shows "Alloc n (pool, st) = Alloc n (NewBlock (pool, st))"
  using assms by (subst Alloc.simps) simp

lemma NewBlock_eq:
  "NewBlock (pool, st)
     = (pool\<lparr>p_top := \<lparr>b_id = next_id st, b_first = BlockSize\<rparr> # p_top pool\<rparr>,
        st\<lparr>heap := (heap st)(next_id st \<mapsto> BlockSize), next_id := Suc (next_id st)\<rparr>)"
  by (simp add: NewBlock_def new_chars_def)

lemma Alloc_escape:
  assumes "p_top pool = b # prev" and "\<not> n \<le> free_bytes b" and "\<not> free_bytes b < Threshold"
    and "data_offset \<le> b_first b"
  shows "Alloc n (pool, st)
           = Inr ((next_id st, 0),
                  pool\<lparr>p_top := b\<lparr>b_first := b_first b - sizeof_Own\<rparr> # prev\<rparr>,
                  place_Own (b_id b, b_first b - sizeof_Own) (next_id st, 0)
                    (st\<lparr>heap := (heap st)(next_id st \<mapsto> n), next_id := Suc (next_id st)\<rparr>))"
proof -
  have f: "sizeof_Own \<le> free_bytes b" "sizeof_Own \<le> b_first b"
    using assms(3,4) by (simp_all add: free_bytes_def Threshold_def sizeof_Own_def data_offset_def)
  show ?thesis
    using assms(1,2,3)
    by (subst Alloc.simps) (simp add: new_chars_def seq_def Alloc_fits[OF assms(1) f])
qed

lemma pool_ok_top:
  "p_top pool = b # prev \<Longrightarrow> pool_ok pool st \<Longrightarrow> block_ok st b \<and> list_all (block_ok st) prev"
  by (simp add: pool_ok_def)

lemma block_ids_below:
  "list_all (block_ok st) bs \<Longrightarrow> i \<in> b_id ` set bs \<Longrightarrow> i < next_id st"
  by (auto simp: list_all_iff block_ok_def)

text \<open>Unfolding a teardown on a concrete pool.\<close>

lemmas pool_eval = then_Pool_dtor_def pool_new_def Alloc.simps Pool_ctor_def NewBlock_def
      new_chars_def init_state_def free_bytes_def BlockSize_def data_offset_def Threshold_def
      sizeof_Own_def seq_def place_Own_def construct_def Pool_dtor_def scan.simps
      destroy_step_def Destroy1_def DeferDestroy_def obj_at_def

subsection \<open>The first pass over a tiled arena\<close>

lemma sig_at_set_count:
  "obj_at st a = Inr ob \<Longrightarrow> sig_at (set_count a ob c st) q = sig_at st q"
  by (auto simp: sig_at_def obj_at_def split: option.splits cell.splits)

lemma sig_at_emit [simp]: "sig_at (emit ev st) q = sig_at st q"
  by (simp add: sig_at_def)

lemma sig_at_retire [simp]: "sig_at (retire i st) q = (if fst q = i then None else sig_at st q)"
  by (simp add: sig_at_def)

lemma count_of_emit [simp]: "count_of (emit ev st) q = count_of st q"
  by (simp add: count_of_def)

lemma count_of_retire [simp]:
  "count_of (retire i st) q = (if fst q = i then None else count_of st q)"
  by (simp add: count_of_def)

lemma count_of_set_count_other:
  "count_of (set_count a ob c st) q = (if q = a then Some c else count_of st q)"
  by (simp add: count_of_def)

lemma obj_at_emit [simp]: "obj_at (emit ev st) q = obj_at st q"
  by (simp add: obj_at_def)

lemma PendingDestroy_nonzero [simp]: "PendingDestroy \<noteq> 0"
  by (simp add: PendingDestroy_def)

lemma sig_at_obj:
  "sig_at st a = Some (k, sz) \<Longrightarrow> \<exists>ob. obj_at st a = Inr ob \<and> o_kind ob = k \<and> o_size ob = sz"
  by (auto simp: sig_at_def obj_at_def split: option.splits cell.splits)

lemma pending_bit: "(c OR PendingDestroy) AND PendingDestroy \<noteq> 0"
proof -
  have "(c OR PendingDestroy) AND PendingDestroy = PendingDestroy"
    by (simp add: bit_eq_iff bit_and_iff bit_or_iff)
  then show ?thesis by (simp add: PendingDestroy_def)
qed

lemma phase1_trace_append: "phase1_trace (xs @ ys) = phase1_trace xs @ phase1_trace ys"
  by (induction xs) simp_all

lemma pass1_postI:
  assumes "trace st1 = trace st @ phase1_trace L" and "heap st1 = heap st"
    and "exiting st1 = exiting st" and "\<And>q. sig_at st1 q = sig_at st q"
    and "\<And>q. count_of st1 q =
             (if MEMORY_SAFE cfg \<and> \<not> exiting st \<and> q \<in> set L
              then map_option (\<lambda>c. c OR PendingDestroy) (count_of st q)
              else count_of st q)"
  shows "pass1_post cfg L st st1"
  unfolding pass1_post_def
proof (intro conjI allI)
  show "trace st1 = trace st @ phase1_trace L" "heap st1 = heap st" "exiting st1 = exiting st"
    by (rule assms)+
  show "sig_at st1 q = sig_at st q" for q by (rule assms(4))
  show "count_of st1 q =
             (if MEMORY_SAFE cfg \<and> \<not> exiting st \<and> q \<in> set L
              then map_option (\<lambda>c. c OR PendingDestroy) (count_of st q)
              else count_of st q)" for q by (rule assms(5))
qed

lemma pass1_post_trace: "pass1_post cfg L st st1 \<Longrightarrow> trace st1 = trace st @ phase1_trace L"
  unfolding pass1_post_def by (elim conjE)

lemma pass1_post_heap: "pass1_post cfg L st st1 \<Longrightarrow> heap st1 = heap st"
  unfolding pass1_post_def by (elim conjE)

lemma pass1_post_exiting: "pass1_post cfg L st st1 \<Longrightarrow> exiting st1 = exiting st"
  unfolding pass1_post_def by (elim conjE)

lemma pass1_post_sig: "pass1_post cfg L st st1 \<Longrightarrow> sig_at st1 q = sig_at st q"
  unfolding pass1_post_def by (elim conjE) (erule spec)

lemma pass1_post_count:
  "pass1_post cfg L st st1 \<Longrightarrow>
     count_of st1 q =
       (if MEMORY_SAFE cfg \<and> \<not> exiting st \<and> q \<in> set L
        then map_option (\<lambda>c. c OR PendingDestroy) (count_of st q)
        else count_of st q)"
  unfolding pass1_post_def by (elim conjE) (erule spec)

lemma pass1_post_refl: "pass1_post cfg [] st st"
  by (rule pass1_postI) simp_all

lemma pass1_post_trans:
  assumes "pass1_post cfg L1 st st1" and "pass1_post cfg L2 st1 st2"
    and "set L1 \<inter> set L2 = {}"
  shows "pass1_post cfg (L1 @ L2) st st2"
proof (rule pass1_postI)
  note ex = pass1_post_exiting[OF assms(1)]
  note c1 = pass1_post_count[OF assms(1)] and c2 = pass1_post_count[OF assms(2)]
  show "trace st2 = trace st @ phase1_trace (L1 @ L2)"
    using pass1_post_trace[OF assms(1)] pass1_post_trace[OF assms(2)]
    by (simp add: phase1_trace_append)
  show "heap st2 = heap st"
    using pass1_post_heap[OF assms(1)] pass1_post_heap[OF assms(2)] by simp
  show "exiting st2 = exiting st"
    using ex pass1_post_exiting[OF assms(2)] by simp
  show "sig_at st2 q = sig_at st q" for q
    using pass1_post_sig[OF assms(1)] pass1_post_sig[OF assms(2)] by simp
  show "count_of st2 q =
             (if MEMORY_SAFE cfg \<and> \<not> exiting st \<and> q \<in> set (L1 @ L2)
              then map_option (\<lambda>c. c OR PendingDestroy) (count_of st q)
              else count_of st q)" for q
  proof (cases "q \<in> set L1")
    case True
    with assms(3) have "q \<notin> set L2" by auto
    with True c1[of q] c2[of q] ex show ?thesis by simp
  next
    case False
    with c1[of q] c2[of q] ex show ?thesis by simp
  qed
qed

text \<open>One object in the first pass.\<close>

lemma destroy_step_pass1:
  assumes "obj_at st a = Inr ob" and "o_kind ob = Gel2Class"
  shows "\<exists>st1. destroy_step cfg True a st = Inr (o_size ob, st1) \<and> pass1_post cfg [a] st st1"
proof (cases "MEMORY_SAFE cfg \<and> \<not> exiting st")
  case True
  let ?st1 = "set_count a ob (o_count ob OR PendingDestroy) st"
  let ?st2 = "emit (Finalize a) (emit (Phase1 a) ?st1)"
  have f1: "destroy_step cfg True a st = Inr (o_size ob, ?st2)"
    using True assms pending_bit[of "o_count ob"]
    by (simp add: destroy_step_def DeferDestroy_def Destroy1_def Object_dtor_def seq_def
        gel_assert_def)
  have f5: "sig_at ?st2 q = sig_at st q" for q
    using assms(1) by (simp add: sig_at_set_count)
  have ca: "count_of st a = Some (o_count ob)"
    using assms(1) by (rule obj_at_count_of)
  have f6: "count_of ?st2 q =
                  (if MEMORY_SAFE cfg \<and> \<not> exiting st \<and> q \<in> set [a]
                   then map_option (\<lambda>c. c OR PendingDestroy) (count_of st q)
                   else count_of st q)" for q
    using True ca by (simp add: count_of_set_count_other)
  have "pass1_post cfg [a] st ?st2"
    by (rule pass1_postI) (simp_all only: f5 f6, simp_all)
  with f1 show ?thesis by blast
next
  case False
  let ?st2 = "emit (Finalize a) (emit (Phase1 a) st)"
  have f1: "destroy_step cfg True a st = Inr (o_size ob, ?st2)"
    using False assms
    by (auto simp: destroy_step_def Destroy1_def Object_dtor_def seq_def gel_assert_def obj_at_def)
  have "pass1_post cfg [a] st ?st2"
    using False by (intro pass1_postI) auto
  with f1 show ?thesis by blast
qed

lemma tiled_cong:
  "(\<And>q. q \<in> set L \<Longrightarrow> sig_at st1 q = sig_at st q) \<Longrightarrow> tiled st1 i p L = tiled st i p L"
  by (induction L arbitrary: p) (auto split: option.splits)

lemma tiled_Cons_elim:
  assumes "tiled st i p (a # as)"
  obtains ob where "a = (i, p)" "p < BlockSize" "obj_at st a = Inr ob" "o_kind ob = Gel2Class"
    "0 < o_size ob" "tiled st i (p + o_size ob) as"
proof -
  from assms have a: "a = (i, p)" and p: "p < BlockSize" by simp_all
  from assms obtain k sz where sg: "sig_at st a = Some (k, sz)"
    by (cases "sig_at st a") auto
  with assms have k: "k = Gel2Class" and sz: "0 < sz" and t: "tiled st i (p + sz) as"
    by simp_all
  from sig_at_obj[OF sg] k obtain ob where "obj_at st a = Inr ob" "o_kind ob = Gel2Class"
    "o_size ob = sz" by blast
  with a p sz t that show thesis by blast
qed

lemma tiled_addrs:
  "tiled st i p L \<Longrightarrow> a \<in> set L \<Longrightarrow> fst a = i \<and> p \<le> snd a \<and> snd a < BlockSize"
proof (induction L arbitrary: p)
  case Nil
  then show ?case by simp
next
  case (Cons x xs)
  from Cons.prems(1) obtain ob where x: "x = (i, p)" and p: "p < BlockSize"
    and "obj_at st x = Inr ob" "o_kind ob = Gel2Class" "0 < o_size ob"
    and t: "tiled st i (p + o_size ob) xs"
    by (rule tiled_Cons_elim)
  show ?case
  proof (cases "a = x")
    case True
    with x p show ?thesis by simp
  next
    case False
    with Cons.prems(2) have "a \<in> set xs" by simp
    from Cons.IH[OF t this] show ?thesis by simp
  qed
qed

lemma tiled_distinct: "tiled st i p L \<Longrightarrow> distinct L"
proof (induction L arbitrary: p)
  case Nil
  then show ?case by simp
next
  case (Cons x xs)
  from Cons.prems obtain ob where x: "x = (i, p)" and "p < BlockSize"
    and "obj_at st x = Inr ob" "o_kind ob = Gel2Class" and sz: "0 < o_size ob"
    and t: "tiled st i (p + o_size ob) xs"
    by (rule tiled_Cons_elim)
  have "x \<notin> set xs"
  proof
    assume "x \<in> set xs"
    from tiled_addrs[OF t this] x sz show False by simp
  qed
  with Cons.IH[OF t] show ?case by simp
qed

text \<open>One block in the first pass.\<close>

lemma scan_pass1:
  assumes "tiled st i p L"
  shows "\<exists>st1. scan cfg True i p st = Inr st1 \<and> pass1_post cfg L st st1"
  using assms
proof (induction L arbitrary: p st)
  case Nil
  then have p: "p = BlockSize" by simp
  have "scan cfg True i p st = Inr st"
    by (subst scan.simps) (simp add: p)
  with pass1_post_refl show ?case by blast
next
  case (Cons a as)
  from Cons.prems obtain ob where a: "a = (i, p)" and p: "p < BlockSize"
    and ob: "obj_at st a = Inr ob" "o_kind ob = Gel2Class"
    and sz: "0 < o_size ob" and t: "tiled st i (p + o_size ob) as"
    by (rule tiled_Cons_elim)
  have notin: "a \<notin> set as"
  proof
    assume "a \<in> set as"
    from tiled_addrs[OF t this] a sz show False by simp
  qed
  from destroy_step_pass1[OF ob, of cfg] obtain st1 where
    step: "destroy_step cfg True a st = Inr (o_size ob, st1)"
    and post1: "pass1_post cfg [a] st st1"
    by blast
  have "tiled st1 i (p + o_size ob) as = tiled st i (p + o_size ob) as"
    by (rule tiled_cong) (rule pass1_post_sig[OF post1])
  with t have t1: "tiled st1 i (p + o_size ob) as" by simp
  from Cons.IH[OF t1] obtain st2 where
    rest: "scan cfg True i (p + o_size ob) st1 = Inr st2"
    and post2: "pass1_post cfg as st1 st2"
    by blast
  have run: "scan cfg True i p st = Inr st2"
    using p step rest sz a by (subst scan.simps) simp
  have "pass1_post cfg ([a] @ as) st st2"
    using post1 post2 notin by (intro pass1_post_trans) simp_all
  with run show ?case by auto
qed

lemma phase1_visits_append:
  "phase1_visits (xs @ ys) = phase1_visits xs @ phase1_visits ys"
  by (induction xs rule: phase1_visits.induct) simp_all

lemma phase1_visits_trace [simp]: "phase1_visits (phase1_trace L) = L"
  by (induction L) simp_all

lemma pool_tiled_Cons_elim:
  assumes "pool_tiled st (b # bs) Ls"
  obtains L Ls1 where "Ls = L # Ls1" "tiled st (b_id b) (b_first b) L"
    "heap st (b_id b) \<noteq> None" "b_id b \<notin> b_id ` set bs" "pool_tiled st bs Ls1"
  using assms by (cases Ls) simp_all

lemma pool_tiled_addrs:
  "pool_tiled st bs Ls \<Longrightarrow> a \<in> set (concat Ls) \<Longrightarrow> fst a \<in> b_id ` set bs"
proof (induction bs arbitrary: Ls)
  case Nil
  then show ?case by simp
next
  case (Cons b bs)
  from Cons.prems(1) obtain L Ls1 where Ls: "Ls = L # Ls1"
    and t: "tiled st (b_id b) (b_first b) L" and "heap st (b_id b) \<noteq> None"
    and "b_id b \<notin> b_id ` set bs" and r: "pool_tiled st bs Ls1"
    by (rule pool_tiled_Cons_elim)
  show ?case
  proof (cases "a \<in> set L")
    case True
    from tiled_addrs[OF t True] show ?thesis by simp
  next
    case False
    with Cons.prems(2) Ls have "a \<in> set (concat Ls1)" by simp
    from Cons.IH[OF r this] show ?thesis by simp
  qed
qed

lemma pool_tiled_cong:
  assumes "\<And>q. fst q \<in> b_id ` set bs \<Longrightarrow> sig_at st1 q = sig_at st q"
    and "\<And>i. i \<in> b_id ` set bs \<Longrightarrow> heap st1 i = heap st i"
  shows "pool_tiled st1 bs Ls = pool_tiled st bs Ls"
  using assms
proof (induction bs arbitrary: Ls)
  case Nil
  then show ?case by simp
next
  case (Cons b bs)
  show ?case
  proof (cases Ls)
    case Nil
    then show ?thesis by simp
  next
    case (Cons L Ls1)
    have t: "tiled st1 (b_id b) (b_first b) L = tiled st (b_id b) (b_first b) L"
    proof (cases "tiled st1 (b_id b) (b_first b) L \<or> tiled st (b_id b) (b_first b) L")
      case False
      then show ?thesis by simp
    next
      case True
      have sg: "sig_at st1 q = sig_at st q" if "fst q = b_id b" for q
        using Cons.prems(1)[of q] that by simp
      have "sig_at st1 q = sig_at st q" if "q \<in> set L" for q
      proof -
        from True have "fst q = b_id b"
        proof
          assume "tiled st1 (b_id b) (b_first b) L"
          from tiled_addrs[OF this that] show ?thesis by simp
        next
          assume "tiled st (b_id b) (b_first b) L"
          from tiled_addrs[OF this that] show ?thesis by simp
        qed
        then show ?thesis by (rule sg)
      qed
      then show ?thesis by (rule tiled_cong)
    qed
    have h: "heap st1 (b_id b) = heap st (b_id b)"
      using Cons.prems(2)[of "b_id b"] by simp
    have r: "pool_tiled st1 bs Ls1 = pool_tiled st bs Ls1"
    proof (rule Cons.IH)
      show "sig_at st1 q = sig_at st q" if "fst q \<in> b_id ` set bs" for q
        using Cons.prems(1)[of q] that by simp
      show "heap st1 i = heap st i" if "i \<in> b_id ` set bs" for i
        using Cons.prems(2)[of i] that by simp
    qed
    from t h r Cons show ?thesis by simp
  qed
qed

text \<open>Releasing a block after its scan keeps the other blocks as they are.\<close>

lemma release_block:
  assumes "heap st (b_id b) \<noteq> None"
  shows "release (b_id b, 0) st = Inr (emit (Release (b_id b)) (retire (b_id b) st))"
  using assms by (simp add: release_def)

lemma pool_tiled_after_block:
  assumes "pool_tiled st bs Ls" and "i \<notin> b_id ` set bs"
    and "\<And>q. fst q \<noteq> i \<Longrightarrow> sig_at st1 q = sig_at st q"
    and "\<And>j. j \<noteq> i \<Longrightarrow> heap st1 j = heap st j"
  shows "pool_tiled st1 bs Ls"
proof -
  have "pool_tiled st1 bs Ls = pool_tiled st bs Ls"
  proof (rule pool_tiled_cong)
    show "sig_at st1 q = sig_at st q" if "fst q \<in> b_id ` set bs" for q
      using that assms(2) by (intro assms(3)) auto
    show "heap st1 j = heap st j" if "j \<in> b_id ` set bs" for j
      using that assms(2) by (intro assms(4)) auto
  qed
  with assms(1) show ?thesis by simp
qed

text \<open>The first pass over all blocks, in every build and mode.\<close>

lemma Destroy_pass1_visits:
  assumes "pool_tiled st bs Ls"
  shows "\<exists>st1. Destroy cfg bs True st = Inr st1
           \<and> phase1_visits (trace st1) = phase1_visits (trace st) @ concat Ls"
  using assms
proof (induction bs arbitrary: Ls st)
  case Nil
  then show ?case by simp
next
  case (Cons b bs)
  from Cons.prems obtain L Ls1 where Ls: "Ls = L # Ls1"
    and t: "tiled st (b_id b) (b_first b) L" and live: "heap st (b_id b) \<noteq> None"
    and fresh: "b_id b \<notin> b_id ` set bs" and r: "pool_tiled st bs Ls1"
    by (rule pool_tiled_Cons_elim)
  from scan_pass1[OF t, of cfg] obtain st1 where
    sc: "scan cfg True (b_id b) (b_first b) st = Inr st1" and post: "pass1_post cfg L st st1"
    by blast
  note h1 = pass1_post_heap[OF post] and tr1 = pass1_post_trace[OF post]
  define st2 where "st2 =
    (if MEMORY_SAFE cfg \<longrightarrow> exiting st1
     then emit (Release (b_id b)) (retire (b_id b) st1) else st1)"
  have rel: "(if MEMORY_SAFE cfg \<longrightarrow> exiting st1 \<or> \<not> True
              then release (b_id b, 0) st1 else Inr st1) = Inr st2"
    using live h1 by (simp add: st2_def release_block)
  have v2: "phase1_visits (trace st2) = phase1_visits (trace st) @ L"
    using tr1 by (simp add: st2_def phase1_visits_append)
  have r2: "pool_tiled st2 bs Ls1"
  proof (rule pool_tiled_after_block[OF r fresh])
    show "sig_at st2 q = sig_at st q" if "fst q \<noteq> b_id b" for q
      using that pass1_post_sig[OF post, of q] by (simp add: st2_def)
    show "heap st2 j = heap st j" if "j \<noteq> b_id b" for j
      using that h1 by (simp add: st2_def)
  qed
  from Cons.IH[OF r2] obtain st3 where
    d: "Destroy cfg bs True st2 = Inr st3"
    and v3: "phase1_visits (trace st3) = phase1_visits (trace st2) @ concat Ls1"
    by blast
  have "Destroy cfg (b # bs) True st = Inr st3"
    using sc rel d by simp
  with v2 v3 Ls show ?case by simp
qed

text \<open>The first pass over all blocks in the two-pass mode.\<close>

lemma Destroy_pass1_post:
  assumes "pool_tiled st bs Ls" and "MEMORY_SAFE cfg" and "\<not> exiting st"
  shows "\<exists>st1. Destroy cfg bs True st = Inr st1 \<and> pass1_post cfg (concat Ls) st st1"
  using assms
proof (induction bs arbitrary: Ls st)
  case Nil
  then show ?case by (simp add: pass1_post_refl)
next
  case (Cons b bs)
  from Cons.prems(1) obtain L Ls1 where Ls: "Ls = L # Ls1"
    and t: "tiled st (b_id b) (b_first b) L" and live: "heap st (b_id b) \<noteq> None"
    and fresh: "b_id b \<notin> b_id ` set bs" and r: "pool_tiled st bs Ls1"
    by (rule pool_tiled_Cons_elim)
  from scan_pass1[OF t, of cfg] obtain st1 where
    sc: "scan cfg True (b_id b) (b_first b) st = Inr st1" and post: "pass1_post cfg L st st1"
    by blast
  have ex1: "\<not> exiting st1" using pass1_post_exiting[OF post] Cons.prems(3) by simp
  have rel: "(if MEMORY_SAFE cfg \<longrightarrow> exiting st1 \<or> \<not> True
              then release (b_id b, 0) st1 else Inr st1) = Inr st1"
    using ex1 Cons.prems(2) by simp
  have r1: "pool_tiled st1 bs Ls1"
  proof (rule pool_tiled_after_block[OF r fresh])
    show "sig_at st1 q = sig_at st q" if "fst q \<noteq> b_id b" for q
      by (rule pass1_post_sig[OF post])
    show "heap st1 j = heap st j" if "j \<noteq> b_id b" for j
      using pass1_post_heap[OF post] by simp
  qed
  from Cons.IH[OF r1 Cons.prems(2) ex1] obtain st3 where
    d: "Destroy cfg bs True st1 = Inr st3" and post3: "pass1_post cfg (concat Ls1) st1 st3"
    by blast
  have run: "Destroy cfg (b # bs) True st = Inr st3"
    using sc rel d by simp
  have disj: "set L \<inter> set (concat Ls1) = {}"
  proof (rule ccontr)
    assume "set L \<inter> set (concat Ls1) \<noteq> {}"
    then obtain a where a: "a \<in> set L" "a \<in> set (concat Ls1)" by auto
    from tiled_addrs[OF t a(1)] pool_tiled_addrs[OF r a(2)] fresh show False by simp
  qed
  have "pass1_post cfg (L @ concat Ls1) st st3"
    by (rule pass1_post_trans[OF post post3 disj])
  with run Ls show ?case by auto
qed

subsection \<open>Client allocations keep the arena tiled\<close>

lemma Alloc_fresh:
  assumes "p_top pool = b # prev" and "\<not> n \<le> free_bytes b" and "free_bytes b < Threshold"
    and "n \<le> capacity"
  shows "Alloc n (pool, st)
           = Inr ((next_id st, BlockSize - n),
                  pool\<lparr>p_top := \<lparr>b_id = next_id st, b_first = BlockSize - n\<rparr> # b # prev\<rparr>,
                  st\<lparr>heap := (heap st)(next_id st \<mapsto> BlockSize), next_id := Suc (next_id st)\<rparr>)"
proof -
  let ?nb = "\<lparr>b_id = next_id st, b_first = BlockSize\<rparr>"
  let ?pool1 = "pool\<lparr>p_top := ?nb # b # prev\<rparr>"
  let ?st1 = "st\<lparr>heap := (heap st)(next_id st \<mapsto> BlockSize), next_id := Suc (next_id st)\<rparr>"
  have top1: "p_top ?pool1 = ?nb # b # prev" by simp
  have "n \<le> free_bytes ?nb" "n \<le> b_first ?nb"
    using assms(4) by (simp_all add: free_bytes_def capacity_def BlockSize_def data_offset_def)
  from Alloc_fits[OF top1 this, of ?st1] Alloc_retry[OF assms(1,2,3), of st] assms(1)
  show ?thesis by (simp add: NewBlock_eq)
qed

lemma sig_at_construct:
  "sig_at (construct k n a st) q = (if q = a then Some (k, n) else sig_at st q)"
  by (simp add: sig_at_def construct_def)

lemma construct_fields [simp]:
  "heap (construct k n a st) = heap st"
  "next_id (construct k n a st) = next_id st"
  "trace (construct k n a st) = trace st"
  "exiting (construct k n a st) = exiting st"
  by (simp_all add: construct_def)

lemma block_ok_next_id:
  "block_ok st b \<Longrightarrow> next_id st \<le> next_id st1 \<Longrightarrow> block_ok st1 b"
  by (simp add: block_ok_def)

lemma blocks_ok_next_id:
  "list_all (block_ok st) bs \<Longrightarrow> next_id st \<le> next_id st1 \<Longrightarrow> list_all (block_ok st1) bs"
  by (induction bs) (auto intro: block_ok_next_id)

lemma blocks_ok_ids: "list_all (block_ok st) bs \<Longrightarrow> next_id st \<notin> b_id ` set bs"
  by (induction bs) (auto simp: block_ok_def)

text \<open>A client allocation that is served from a block keeps the arena tiled.\<close>

lemma pool_new_step:
  assumes "pool_ok pool st" and "pool_tiled st (p_top pool) Ls" and "fits_block n pool"
  shows "\<exists>a pool1 st1 Ls1. pool_new n (pool, st) = Inr (a, pool1, st1)
           \<and> pool_ok pool1 st1 \<and> pool_tiled st1 (p_top pool1) Ls1
           \<and> concat Ls1 = a # concat Ls \<and> a \<notin> set (concat Ls) \<and> trace st1 = trace st"
proof -
  from assms(1) obtain b prev where top: "p_top pool = b # prev"
    by (cases "p_top pool") (simp_all add: pool_ok_def)
  with assms(1) have bok: "block_ok st b" and pok: "list_all (block_ok st) prev"
    by (simp_all add: pool_ok_def)
  from assms(3) top have n: "0 < n"
    and cases: "n \<le> free_bytes b \<or> (free_bytes b < Threshold \<and> n \<le> capacity)"
    by (simp_all add: fits_block_def)
  from assms(2) top have "pool_tiled st (b # prev) Ls" by simp
  then obtain L Ls' where Ls: "Ls = L # Ls'"
    and t: "tiled st (b_id b) (b_first b) L" and live: "heap st (b_id b) \<noteq> None"
    and fresh: "b_id b \<notin> b_id ` set prev" and r: "pool_tiled st prev Ls'"
    by (rule pool_tiled_Cons_elim)
  have fb: "free_bytes b = b_first b - data_offset" by (rule free_bytes_ok[OF bok])
  have bnd: "data_offset \<le> b_first b" "b_first b \<le> BlockSize" "b_id b < next_id st"
    using bok by (simp_all add: block_ok_def)
  show ?thesis
  proof (cases "n \<le> free_bytes b")
    case True
    let ?a = "(b_id b, b_first b - n)"
    let ?b1 = "b\<lparr>b_first := b_first b - n\<rparr>"
    let ?pool1 = "pool\<lparr>p_top := ?b1 # prev\<rparr>"
    let ?st1 = "construct Gel2Class n ?a st"
    have nle: "n \<le> b_first b" using True fb by simp
    have run: "pool_new n (pool, st) = Inr (?a, ?pool1, ?st1)"
      using Alloc_fits[OF top True nle, of st] by (simp add: pool_new_def seq_def)
    have notin: "?a \<notin> set L"
    proof
      assume "?a \<in> set L"
      from tiled_addrs[OF t this] have "b_first b \<le> b_first b - n" by simp
      with n nle bnd(1) show False
        unfolding data_offset_def by arith
    qed
    have tL: "tiled ?st1 (b_id b) (b_first b) L"
    proof -
      have "tiled ?st1 (b_id b) (b_first b) L = tiled st (b_id b) (b_first b) L"
      proof (rule tiled_cong)
        show "sig_at ?st1 q = sig_at st q" if "q \<in> set L" for q
          using that notin by (auto simp: sig_at_construct)
      qed
      with t show ?thesis by simp
    qed
    have t1: "tiled ?st1 (b_id ?b1) (b_first ?b1) (?a # L)"
      using tL n nle bnd(2) by (simp add: sig_at_construct)
    have r1: "pool_tiled ?st1 prev Ls'"
    proof (rule pool_tiled_after_block[OF r fresh])
      show "sig_at ?st1 q = sig_at st q" if "fst q \<noteq> b_id b" for q
        using that by (auto simp: sig_at_construct)
      show "heap ?st1 j = heap st j" if "j \<noteq> b_id b" for j by simp
    qed
    have pt: "pool_tiled ?st1 (p_top ?pool1) ((?a # L) # Ls')"
      using t1 r1 live fresh by simp
    have "data_offset \<le> b_first b - n" "b_first b - n \<le> BlockSize"
      using bnd True fb by arith+
    then have ok: "pool_ok ?pool1 ?st1"
      using bnd(3) blocks_ok_next_id[OF pok, of ?st1]
      by (simp add: pool_ok_def block_ok_def)
    have out: "?a \<notin> set (concat Ls)"
    proof
      assume "?a \<in> set (concat Ls)"
      with Ls notin have "?a \<in> set (concat Ls')" by simp
      from pool_tiled_addrs[OF r this] fresh show False by simp
    qed
    from run ok pt out Ls show ?thesis
      by (intro exI[of _ ?a] exI[of _ ?pool1] exI[of _ ?st1] exI[of _ "(?a # L) # Ls'"]) simp
  next
    case False
    with cases have small: "free_bytes b < Threshold" and cap: "n \<le> capacity" by simp_all
    let ?nid = "next_id st"
    let ?a = "(?nid, BlockSize - n)"
    let ?b1 = "\<lparr>b_id = ?nid, b_first = BlockSize - n\<rparr>"
    let ?pool1 = "pool\<lparr>p_top := ?b1 # b # prev\<rparr>"
    let ?st' = "st\<lparr>heap := (heap st)(?nid \<mapsto> BlockSize), next_id := Suc ?nid\<rparr>"
    let ?st1 = "construct Gel2Class n ?a ?st'"
    have run: "pool_new n (pool, st) = Inr (?a, ?pool1, ?st1)"
      using Alloc_fresh[OF top False small cap, of st] by (simp add: pool_new_def seq_def)
    have nb: "n \<le> BlockSize" using cap by (simp add: capacity_def)
    have t1: "tiled ?st1 (b_id ?b1) (b_first ?b1) [?a]"
      using n nb by (simp add: sig_at_construct)
    have newid: "?nid \<notin> b_id ` set (b # prev)"
      using blocks_ok_ids[of st "b # prev"] bok pok by simp
    have old: "pool_tiled ?st1 (b # prev) Ls"
    proof (rule pool_tiled_after_block[OF _ newid])
      show "pool_tiled st (b # prev) Ls" using assms(2) top by simp
      show "sig_at ?st1 q = sig_at st q" if "fst q \<noteq> ?nid" for q
      proof -
        from that have "q \<noteq> ?a" by auto
        then have "sig_at ?st1 q = sig_at ?st' q" by (simp add: sig_at_construct)
        then show ?thesis by (simp add: sig_at_def)
      qed
      show "heap ?st1 j = heap st j" if "j \<noteq> ?nid" for j using that by simp
    qed
    have pt: "pool_tiled ?st1 (p_top ?pool1) ([?a] # Ls)"
      using t1 old newid by simp
    have "data_offset \<le> BlockSize - n"
      using cap unfolding capacity_def BlockSize_def data_offset_def by arith
    then have ok: "pool_ok ?pool1 ?st1"
      using bok pok blocks_ok_next_id[of st "b # prev" ?st1]
      by (simp add: pool_ok_def block_ok_def)
    have out: "?a \<notin> set (concat Ls)"
    proof
      assume "?a \<in> set (concat Ls)"
      from pool_tiled_addrs[OF _ this, of st "b # prev"] assms(2) top newid show False by simp
    qed
    from run ok pt out show ?thesis
      by (intro exI[of _ ?a] exI[of _ ?pool1] exI[of _ ?st1] exI[of _ "[?a] # Ls"]) simp
  qed
qed

lemma pool_news_run:
  assumes "pool_ok pool st" and "pool_tiled st (p_top pool) Ls" and "all_fit ns (pool, st)"
  shows "\<exists>addrs pool1 st1 Ls1. pool_news ns (pool, st) = Inr (addrs, pool1, st1)
           \<and> pool_ok pool1 st1 \<and> pool_tiled st1 (p_top pool1) Ls1
           \<and> concat Ls1 = rev addrs @ concat Ls \<and> distinct addrs
           \<and> set addrs \<inter> set (concat Ls) = {} \<and> length addrs = length ns
           \<and> trace st1 = trace st"
  using assms
proof (induction ns arbitrary: pool st Ls)
  case Nil
  then show ?case by (intro exI[of _ "[]"] exI[of _ pool] exI[of _ st] exI[of _ Ls]) simp
next
  case (Cons n ns)
  from Cons.prems(3) have fit: "fits_block n pool" by simp
  from pool_new_step[OF Cons.prems(1,2) fit] obtain a pool1 st1 Ls1 where
    step: "pool_new n (pool, st) = Inr (a, pool1, st1)"
    and ok1: "pool_ok pool1 st1" and pt1: "pool_tiled st1 (p_top pool1) Ls1"
    and c1: "concat Ls1 = a # concat Ls" and out: "a \<notin> set (concat Ls)"
    and tr1: "trace st1 = trace st"
    by blast
  from Cons.prems(3) step have fits: "all_fit ns (pool1, st1)" by simp
  from Cons.IH[OF ok1 pt1 fits] obtain addrs pool2 st2 Ls2 where
    run: "pool_news ns (pool1, st1) = Inr (addrs, pool2, st2)"
    and ok2: "pool_ok pool2 st2" and pt2: "pool_tiled st2 (p_top pool2) Ls2"
    and c2: "concat Ls2 = rev addrs @ concat Ls1" and d: "distinct addrs"
    and disj: "set addrs \<inter> set (concat Ls1) = {}" and len: "length addrs = length ns"
    and tr2: "trace st2 = trace st1"
    by blast
  have r: "pool_news (n # ns) (pool, st) = Inr (a # addrs, pool2, st2)"
    using step run by simp
  have f1: "concat Ls2 = rev (a # addrs) @ concat Ls" using c1 c2 by simp
  have f2: "distinct (a # addrs)" using d disj c1 by auto
  have f3: "set (a # addrs) \<inter> set (concat Ls) = {}" using disj c1 out by auto
  have f4: "length (a # addrs) = length (n # ns)" using len by simp
  have f5: "trace st2 = trace st" using tr1 tr2 by simp
  from r ok2 pt2 f1 f2 f3 f4 f5 show ?case by blast
qed

lemma Pool_ctor_tiled:
  "pool_ok (fst (Pool_ctor st0)) (snd (Pool_ctor st0))
   \<and> pool_tiled (snd (Pool_ctor st0)) (p_top (fst (Pool_ctor st0))) [[]]
   \<and> trace (snd (Pool_ctor st0)) = trace st0"
  by (simp add: Pool_ctor_def NewBlock_eq pool_ok_def block_ok_def BlockSize_def
      data_offset_def)

subsection \<open>The second pass over a tiled arena\<close>

text \<open>One object, one block and all blocks in the second pass.\<close>

lemma destroy_step_pass2:
  assumes "MEMORY_SAFE cfg" and "\<not> exiting st" and "obj_at st a = Inr ob"
    and "o_kind ob = Gel2Class"
  shows "destroy_step cfg False a st =
           (if o_count ob = PendingDestroy then Inr (o_size ob, emit (Phase2 a) st)
            else Inl (Fatal ''outstanding reference to destroyed pool-allocated object''))"
  using assms
  by (simp add: destroy_step_def CheckDeferredDestroy_def Destroy2_def seq_def gel_assert_def)

lemma scan_pass2:
  assumes "MEMORY_SAFE cfg" and "\<not> exiting st" and "tiled st i p L"
  shows "scan cfg False i p st =
           (if \<forall>a\<in>set L. count_of st a = Some PendingDestroy
            then Inr (st\<lparr>trace := trace st @ map Phase2 L\<rparr>)
            else Inl (Fatal ''outstanding reference to destroyed pool-allocated object''))"
  using assms(2,3)
proof (induction L arbitrary: p st)
  case Nil
  then have p: "p = BlockSize" by simp
  show ?case by (subst scan.simps) (simp add: p)
next
  case (Cons a as)
  from Cons.prems(2) obtain ob where a: "a = (i, p)" and p: "p < BlockSize"
    and ob: "obj_at st a = Inr ob" "o_kind ob = Gel2Class"
    and sz: "0 < o_size ob" and t: "tiled st i (p + o_size ob) as"
    by (rule tiled_Cons_elim)
  note step = destroy_step_pass2[OF assms(1) Cons.prems(1) ob]
  have ca: "count_of st a = Some (o_count ob)" using ob(1) by (rule obj_at_count_of)
  show ?case
  proof (cases "o_count ob = PendingDestroy")
    case False
    have "scan cfg False i p st
            = Inl (Fatal ''outstanding reference to destroyed pool-allocated object'')"
      using p step False a by (subst scan.simps) simp
    with False ca show ?thesis by simp
  next
    case True
    let ?st1 = "emit (Phase2 a) st"
    have "tiled ?st1 i (p + o_size ob) as = tiled st i (p + o_size ob) as"
      by (rule tiled_cong) simp
    with t have t1: "tiled ?st1 i (p + o_size ob) as" by simp
    have ex1: "\<not> exiting ?st1" using Cons.prems(1) by simp
    note ih = Cons.IH[OF ex1 t1]
    have run: "scan cfg False i p st = scan cfg False i (p + o_size ob) ?st1"
      using p step True sz a by (subst scan.simps) simp
    have st2: "?st1\<lparr>trace := trace ?st1 @ map Phase2 as\<rparr>
                 = st\<lparr>trace := trace st @ map Phase2 (a # as)\<rparr>"
      by (simp add: emit_def)
    from run ih st2 True ca show ?thesis by simp
  qed
qed

lemma phase2_trace_Cons [simp]:
  "phase2_trace (b # bs) (L # Ls) = map Phase2 L @ Release (b_id b) # phase2_trace bs Ls"
  by simp

lemma Destroy_pass2:
  assumes "MEMORY_SAFE cfg" and "\<not> exiting st" and "pool_tiled st bs Ls"
  shows "if \<forall>a\<in>set (concat Ls). count_of st a = Some PendingDestroy
         then \<exists>st2. Destroy cfg bs False st = Inr st2
                \<and> trace st2 = trace st @ phase2_trace bs Ls
                \<and> (\<forall>j. heap st2 j = (if j \<in> b_id ` set bs then None else heap st j))
                \<and> (\<forall>q. mem st2 q = (if fst q \<in> b_id ` set bs then None else mem st q))
         else Destroy cfg bs False st
                = Inl (Fatal ''outstanding reference to destroyed pool-allocated object'')"
  using assms(2,3)
proof (induction bs arbitrary: Ls st)
  case Nil
  then show ?case by simp
next
  case (Cons b bs)
  from Cons.prems(2) obtain L Ls1 where Ls: "Ls = L # Ls1"
    and t: "tiled st (b_id b) (b_first b) L" and live: "heap st (b_id b) \<noteq> None"
    and fresh: "b_id b \<notin> b_id ` set bs" and r: "pool_tiled st bs Ls1"
    by (rule pool_tiled_Cons_elim)
  note sc = scan_pass2[OF assms(1) Cons.prems(1) t]
  show ?case
  proof (cases "\<forall>a\<in>set L. count_of st a = Some PendingDestroy")
    case False
    with sc have "Destroy cfg (b # bs) False st
            = Inl (Fatal ''outstanding reference to destroyed pool-allocated object'')"
      by simp
    with False Ls show ?thesis by auto
  next
    case True
    let ?st1 = "st\<lparr>trace := trace st @ map Phase2 L\<rparr>"
    let ?st2 = "emit (Release (b_id b)) (retire (b_id b) ?st1)"
    from sc True have sc1: "scan cfg False (b_id b) (b_first b) st = Inr ?st1" by simp
    have rel: "(if MEMORY_SAFE cfg \<longrightarrow> exiting ?st1 \<or> \<not> False
                then release (b_id b, 0) ?st1 else Inr ?st1) = Inr ?st2"
      using live by (simp add: release_def)
    have run: "Destroy cfg (b # bs) False st = Destroy cfg bs False ?st2"
      using sc1 rel by simp
    have r2: "pool_tiled ?st2 bs Ls1"
    proof (rule pool_tiled_after_block[OF r fresh])
      show "sig_at ?st2 q = sig_at st q" if "fst q \<noteq> b_id b" for q
        using that by (simp add: sig_at_def)
      show "heap ?st2 j = heap st j" if "j \<noteq> b_id b" for j
        using that by simp
    qed
    have ex2: "\<not> exiting ?st2" using Cons.prems(1) by simp
    have cnt: "count_of ?st2 a = count_of st a" if "a \<in> set (concat Ls1)" for a
    proof -
      from pool_tiled_addrs[OF r that] fresh have "fst a \<noteq> b_id b" by auto
      then show ?thesis by (simp add: count_of_def)
    qed
    then have all: "(\<forall>a\<in>set (concat Ls1). count_of ?st2 a = Some PendingDestroy)
                  = (\<forall>a\<in>set (concat Ls1). count_of st a = Some PendingDestroy)"
      by simp
    note ih = Cons.IH[OF ex2 r2]
    show ?thesis
    proof (cases "\<forall>a\<in>set (concat Ls1). count_of st a = Some PendingDestroy")
      case False
      with ih all run have "Destroy cfg (b # bs) False st
            = Inl (Fatal ''outstanding reference to destroyed pool-allocated object'')"
        by simp
      with False Ls show ?thesis by auto
    next
      case rest: True
      with ih all obtain st3 where d: "Destroy cfg bs False ?st2 = Inr st3"
        and tr3: "trace st3 = trace ?st2 @ phase2_trace bs Ls1"
        and h3: "\<forall>j. heap st3 j = (if j \<in> b_id ` set bs then None else heap ?st2 j)"
        and m3: "\<forall>q. mem st3 q = (if fst q \<in> b_id ` set bs then None else mem ?st2 q)"
        by auto
      have tr: "trace st3 = trace st @ phase2_trace (b # bs) Ls"
        using tr3 Ls by simp
      have h: "\<forall>j. heap st3 j = (if j \<in> b_id ` set (b # bs) then None else heap st j)"
        using h3 by simp
      have m: "\<forall>q. mem st3 q = (if fst q \<in> b_id ` set (b # bs) then None else mem st q)"
        using m3 by simp
      from run d tr h m True rest Ls show ?thesis by auto
    qed
  qed
qed

subsection \<open>The single pass\<close>

text \<open>
  The only pass of a production build, and of a diagnostic build once \<open>_exiting\<close> is
  set: nothing is checked, and each block goes right after its objects.
\<close>

lemma Destroy_single_pass:
  assumes "pool_tiled st bs Ls" and "MEMORY_SAFE cfg \<longrightarrow> exiting st"
  shows "\<exists>st1. Destroy cfg bs True st = Inr st1
           \<and> trace st1 = trace st @ single_pass_trace bs Ls
           \<and> exiting st1 = exiting st
           \<and> (\<forall>j. heap st1 j = (if j \<in> b_id ` set bs then None else heap st j))"
  using assms
proof (induction bs arbitrary: Ls st)
  case Nil
  then show ?case by simp
next
  case (Cons b bs)
  from Cons.prems(1) obtain L Ls1 where Ls: "Ls = L # Ls1"
    and t: "tiled st (b_id b) (b_first b) L" and live: "heap st (b_id b) \<noteq> None"
    and fresh: "b_id b \<notin> b_id ` set bs" and r: "pool_tiled st bs Ls1"
    by (rule pool_tiled_Cons_elim)
  from scan_pass1[OF t, of cfg] obtain st1 where
    sc: "scan cfg True (b_id b) (b_first b) st = Inr st1" and post: "pass1_post cfg L st st1"
    by blast
  note h1 = pass1_post_heap[OF post] and tr1 = pass1_post_trace[OF post]
    and ex1 = pass1_post_exiting[OF post]
  let ?st2 = "emit (Release (b_id b)) (retire (b_id b) st1)"
  have rel: "(if MEMORY_SAFE cfg \<longrightarrow> exiting st1 \<or> \<not> True
              then release (b_id b, 0) st1 else Inr st1) = Inr ?st2"
    using live h1 ex1 Cons.prems(2) by (simp add: release_block)
  have r2: "pool_tiled ?st2 bs Ls1"
  proof (rule pool_tiled_after_block[OF r fresh])
    show "sig_at ?st2 q = sig_at st q" if "fst q \<noteq> b_id b" for q
      using that pass1_post_sig[OF post, of q] by simp
    show "heap ?st2 j = heap st j" if "j \<noteq> b_id b" for j
      using that h1 by simp
  qed
  have ex2: "MEMORY_SAFE cfg \<longrightarrow> exiting ?st2"
    using ex1 Cons.prems(2) by simp
  from Cons.IH[OF r2 ex2] obtain st3 where
    d: "Destroy cfg bs True ?st2 = Inr st3"
    and tr3: "trace st3 = trace ?st2 @ single_pass_trace bs Ls1"
    and ex3: "exiting st3 = exiting ?st2"
    and h3: "\<forall>j. heap st3 j = (if j \<in> b_id ` set bs then None else heap ?st2 j)"
    by blast
  have run: "Destroy cfg (b # bs) True st = Inr st3"
    using sc rel d by simp
  have tr: "trace st3 = trace st @ single_pass_trace (b # bs) Ls"
    using tr3 tr1 Ls by simp
  have ex: "exiting st3 = exiting st" using ex3 ex1 by simp
  have h: "\<forall>j. heap st3 j = (if j \<in> b_id ` set (b # bs) then None else heap st j)"
    using h3 h1 by simp
  from run tr ex h show ?case by blast
qed

section \<open>C1: the placeholder of an escaped allocation\<close>

text \<open>
  C1 at a concrete input. In a fresh pool a request of 9000 bytes does not fit the current
  block, which has 8176 bytes free: the value is allocated on the heap and an
  \<open>_Own<Object>\<close> holding its address is put into the arena. That record is not an
  \<open>Object\<close>: when the pool is torn down, in any build, the scan makes its calls on it as
  if it were one, which is undefined, and no defined path releases the escaped allocation.
\<close>

theorem escaped_allocation_teardown_undefined:
  "served_from_heap 9000 (Alloc 9000 (Pool_ctor init_state))
   \<and> map_sum id fst (pool_new 9000 (Pool_ctor init_state)) = Inr (2, 0)
   \<and> then_Pool_dtor cfg (pool_new 9000 (Pool_ctor init_state)) = Inl Undefined"
  by (simp add: pool_eval served_from_heap_def in_pool_def emit_def)

text \<open>
  The class \<open>PoolObject\<close> of the same file is the placeholder that the scan can
  handle: with a \<open>PoolObject\<close> holding the escaped value in the arena, the teardown
  finalises the escaped value and releases its allocation once, in the diagnostic and in
  the production build. \<open>Alloc\<close> does not use it.
\<close>

lemma PoolObject_placeholder_releases_once:
  "teardown_trace (Pool_dtor diagnostic_build
      (\<lparr>p_top = [\<lparr>b_id = 1, b_first = 8168\<rparr>]\<rparr>,
       construct (PoolObj (Some (2, 0))) 24 (1, 8168)
         (snd (new_obj Gel2Class 9000 (snd (Pool_ctor init_state))))))
     = Inr [Phase1 (1, 8168), Finalize (2, 0), Phase2 (1, 8168), Release 2, Release 1]
   \<and> teardown_trace (Pool_dtor production_build
      (\<lparr>p_top = [\<lparr>b_id = 1, b_first = 8168\<rparr>]\<rparr>,
       construct (PoolObj (Some (2, 0))) 24 (1, 8168)
         (snd (new_obj Gel2Class 9000 (snd (Pool_ctor init_state))))))
     = Inr [Phase1 (1, 8168), Finalize (2, 0), Release 2, Release 1]"
  by (simp add: pool_eval Object_dtor_def teardown_trace_def Destroy2_def
      CheckDeferredDestroy_def diagnostic_build_def production_build_def release_def emit_def
      retire_def gel_assert_def set_count_def PendingDestroy_def new_obj_def
      PoolObject_Destroy1_def PoolObject_Destroy2_def delete_obj_def)

section \<open>C2: how an allocation is served\<close>

text \<open>
  C2, as amended. For a pool whose current block is \<open>b\<close>: a request that fits the free
  bytes of \<open>b\<close> is served by lowering \<open>first_\<close> by exactly \<open>n\<close>; a request that does
  not fit while fewer than \<open>Threshold\<close> bytes are free makes a fresh block of
  \<open>BlockSize\<close> bytes and is retried there (and served from it when it fits a whole
  block); and the request is served by an individual heap allocation, with an
  \<open>_Own<Object>\<close> placeholder put into the arena, exactly when it does not fit the block
  on which it is tried while that block has at least \<open>Threshold\<close> bytes free: that is,
  when it exceeds the free bytes of the current block and either these are at least
  \<open>Threshold\<close> or the request exceeds the capacity of a whole block.
\<close>

theorem Alloc_cases:
  assumes "p_top pool = b # prev" and "pool_ok pool st"
  shows "(n \<le> free_bytes b \<longrightarrow>
            Alloc n (pool, st)
              = Inr ((b_id b, b_first b - n),
                     pool\<lparr>p_top := b\<lparr>b_first := b_first b - n\<rparr> # prev\<rparr>, st))
       \<and> (free_bytes b < n \<and> free_bytes b < Threshold \<longrightarrow>
            Alloc n (pool, st) = Alloc n (NewBlock (pool, st))
            \<and> NewBlock (pool, st)
                = (pool\<lparr>p_top := \<lparr>b_id = next_id st, b_first = BlockSize\<rparr> # b # prev\<rparr>,
                   st\<lparr>heap := (heap st)(next_id st \<mapsto> BlockSize),
                      next_id := Suc (next_id st)\<rparr>)
            \<and> (n \<le> capacity \<longrightarrow>
                  Alloc n (pool, st)
                    = Inr ((next_id st, BlockSize - n),
                           pool\<lparr>p_top := \<lparr>b_id = next_id st, b_first = BlockSize - n\<rparr>
                                          # b # prev\<rparr>,
                           st\<lparr>heap := (heap st)(next_id st \<mapsto> BlockSize),
                              next_id := Suc (next_id st)\<rparr>)))
       \<and> (served_from_heap n (Alloc n (pool, st))
            \<longleftrightarrow> free_bytes b < n \<and> (Threshold \<le> free_bytes b \<or> capacity < n))"
proof -
  from pool_ok_top[OF assms] have bok: "block_ok st b" and pok: "list_all (block_ok st) prev"
    by simp_all
  have fb: "free_bytes b = b_first b - data_offset" by (rule free_bytes_ok[OF bok])
  have off: "data_offset \<le> b_first b" using bok by (simp add: block_ok_def)
  have ids: "b_id b < next_id st" "\<forall>x\<in>set prev. b_id x < next_id st"
    using bok pok by (auto simp: list_all_iff block_ok_def)
  let ?nb = "\<lparr>b_id = next_id st, b_first = BlockSize\<rparr>"
  let ?pool1 = "pool\<lparr>p_top := ?nb # b # prev\<rparr>"
  let ?st1 = "st\<lparr>heap := (heap st)(next_id st \<mapsto> BlockSize), next_id := Suc (next_id st)\<rparr>"
  have nb: "NewBlock (pool, st) = (?pool1, ?st1)"
    using assms(1) by (simp add: NewBlock_eq)
  have top1: "p_top ?pool1 = ?nb # b # prev" by simp
  have fnb: "free_bytes ?nb = capacity"
    by (simp add: free_bytes_def capacity_def BlockSize_def data_offset_def)
  have fits: "Alloc n (pool, st)
              = Inr ((b_id b, b_first b - n),
                     pool\<lparr>p_top := b\<lparr>b_first := b_first b - n\<rparr> # prev\<rparr>, st)"
    if "n \<le> free_bytes b"
    using that fb by (intro Alloc_fits[OF assms(1)]) simp_all
  have retry: "Alloc n (pool, st) = Alloc n (?pool1, ?st1)"
    if "free_bytes b < n" "free_bytes b < Threshold"
    using Alloc_retry[OF assms(1), of n st] that nb by simp
  have fresh: "Alloc n (pool, st)
                    = Inr ((next_id st, BlockSize - n),
                           pool\<lparr>p_top := \<lparr>b_id = next_id st, b_first = BlockSize - n\<rparr>
                                          # b # prev\<rparr>, ?st1)"
    if "free_bytes b < n" "free_bytes b < Threshold" "n \<le> capacity"
  proof -
    have "n \<le> b_first ?nb" using that(3) by (simp add: capacity_def)
    from Alloc_fits[OF top1 _ this, of ?st1] that(3) fnb retry[OF that(1,2)]
    show ?thesis by simp
  qed
  have c3: "served_from_heap n (Alloc n (pool, st))
            \<longleftrightarrow> free_bytes b < n \<and> (Threshold \<le> free_bytes b \<or> capacity < n)"
  proof (cases "n \<le> free_bytes b")
    case True
    with fits[OF True] assms(1) show ?thesis
      by (simp add: served_from_heap_def in_pool_def)
  next
    case nofit: False
    show ?thesis
    proof (cases "free_bytes b < Threshold")
      case False
      from Alloc_escape[OF assms(1) nofit False off, of st] nofit False ids assms(1)
      show ?thesis
        by (auto simp: served_from_heap_def in_pool_def place_Own_def)
    next
      case small: True
      show ?thesis
      proof (cases "n \<le> capacity")
        case True
        with fresh[OF _ small True] nofit small show ?thesis
          by (simp add: served_from_heap_def in_pool_def)
      next
        case False
        have nf: "\<not> n \<le> free_bytes ?nb" "\<not> free_bytes ?nb < Threshold"
          using False fnb by (simp_all add: capacity_def BlockSize_def data_offset_def Threshold_def)
        have "data_offset \<le> b_first ?nb" by (simp add: BlockSize_def data_offset_def)
        from Alloc_escape[OF top1 nf this, of ?st1] retry[OF _ small] nofit False small ids
        show ?thesis
          by (auto simp: served_from_heap_def in_pool_def place_Own_def)
      qed
    qed
  qed
  from fits retry fresh nb c3 show ?thesis
    by (intro conjI impI) auto
qed

theorem Alloc_cases_witness:
  "p_top \<lparr>p_top = [\<lparr>b_id = 1, b_first = 192\<rparr>]\<rparr> = \<lparr>b_id = 1, b_first = 192\<rparr> # []
   \<and> pool_ok \<lparr>p_top = [\<lparr>b_id = 1, b_first = 192\<rparr>]\<rparr> (snd (Pool_ctor init_state))
   \<and> free_bytes \<lparr>b_id = 1, b_first = 192\<rparr> = 176
   \<and> Alloc 100 (\<lparr>p_top = [\<lparr>b_id = 1, b_first = 192\<rparr>]\<rparr>, snd (Pool_ctor init_state))
       = Inr ((1, 92), \<lparr>p_top = [\<lparr>b_id = 1, b_first = 92\<rparr>]\<rparr>, snd (Pool_ctor init_state))
   \<and> Alloc 200 (\<lparr>p_top = [\<lparr>b_id = 1, b_first = 192\<rparr>]\<rparr>, snd (Pool_ctor init_state))
       = Inr ((2, 7992),
              \<lparr>p_top = [\<lparr>b_id = 2, b_first = 7992\<rparr>, \<lparr>b_id = 1, b_first = 192\<rparr>]\<rparr>,
              (snd (Pool_ctor init_state))
                \<lparr>heap := (heap (snd (Pool_ctor init_state)))(2 \<mapsto> BlockSize), next_id := 3\<rparr>)
   \<and> served_from_heap 9000
         (Alloc 9000 (\<lparr>p_top = [\<lparr>b_id = 1, b_first = 192\<rparr>]\<rparr>, snd (Pool_ctor init_state)))
   \<and> \<not> served_from_heap 200
         (Alloc 200 (\<lparr>p_top = [\<lparr>b_id = 1, b_first = 192\<rparr>]\<rparr>, snd (Pool_ctor init_state)))"
  using Alloc_cases [of "\<lparr>p_top = [\<lparr>b_id = 1, b_first = 192\<rparr>]\<rparr>" "\<lparr>b_id = 1, b_first = 192\<rparr>" "[]"
      "snd (Pool_ctor init_state)" 100]
    Alloc_cases [of "\<lparr>p_top = [\<lparr>b_id = 1, b_first = 192\<rparr>]\<rparr>" "\<lparr>b_id = 1, b_first = 192\<rparr>" "[]"
      "snd (Pool_ctor init_state)" 200]
    Alloc_cases [of "\<lparr>p_top = [\<lparr>b_id = 1, b_first = 192\<rparr>]\<rparr>" "\<lparr>b_id = 1, b_first = 192\<rparr>" "[]"
      "snd (Pool_ctor init_state)" 9000]
  by (simp add: pool_ok_def block_ok_def Pool_ctor_def NewBlock_def new_chars_def
      init_state_def free_bytes_def BlockSize_def data_offset_def Threshold_def capacity_def
      Alloc.simps sizeof_Own_def seq_def place_Own_def served_from_heap_def in_pool_def
      numeral_2_eq_2 numeral_3_eq_3)

text \<open>
  C2 as stated fails: a request of 2000 bytes, far below the capacity of a block, is
  served from the heap when the current block has 1176 bytes left.
\<close>

theorem heap_allocation_below_capacity:
  "served_from_heap 2000 (then_Alloc 2000 (Alloc 7000 (Pool_ctor init_state)))
   \<and> 2000 \<le> capacity
   \<and> map_sum id fst (then_Alloc 2000 (Alloc 7000 (Pool_ctor init_state))) = Inr (2, 0)"
  by (simp add: served_from_heap_def then_Alloc_def Alloc.simps Pool_ctor_def NewBlock_def
      new_chars_def init_state_def free_bytes_def BlockSize_def data_offset_def Threshold_def
      sizeof_Own_def seq_def place_Own_def in_pool_def capacity_def)

section \<open>C3: the order of the first pass\<close>

text \<open>
  C3, as amended. Let a fresh pool receive a sequence of client allocations that are all
  served from blocks. The first pass of the teardown, in every build and mode, walks the
  blocks from the most recent to the oldest and each block from \<open>first_\<close> to its end,
  advancing by the footprint that \<open>_Destroy1\<close> returns; it calls \<open>_Destroy1\<close> on each
  object exactly once (the addresses are distinct), and it does so in the reverse of the
  allocation order: the object allocated last is finalised first.
\<close>

theorem phase1_reverse_allocation_order:
  assumes "all_fit ns (Pool_ctor st0)"
  shows "\<exists>addrs pool st st1.
           pool_news ns (Pool_ctor st0) = Inr (addrs, pool, st)
           \<and> length addrs = length ns \<and> distinct addrs
           \<and> Destroy cfg (p_top pool) True st = Inr st1
           \<and> phase1_visits (trace st1) = phase1_visits (trace st0) @ rev addrs"
proof -
  obtain pool0 st0' where p0: "Pool_ctor st0 = (pool0, st0')" by (cases "Pool_ctor st0")
  with Pool_ctor_tiled[of st0] have ok0: "pool_ok pool0 st0'"
    and pt0: "pool_tiled st0' (p_top pool0) [[]]" and tr0: "trace st0' = trace st0"
    by simp_all
  from assms p0 have fit: "all_fit ns (pool0, st0')" by simp
  from pool_news_run[OF ok0 pt0 fit] obtain addrs pool st Ls where
    run: "pool_news ns (pool0, st0') = Inr (addrs, pool, st)"
    and pt: "pool_tiled st (p_top pool) Ls" and c: "concat Ls = rev addrs @ concat [[]]"
    and d: "distinct addrs" and len: "length addrs = length ns" and tr: "trace st = trace st0'"
    by blast
  from Destroy_pass1_visits[OF pt, of cfg] obtain st1 where
    des: "Destroy cfg (p_top pool) True st = Inr st1"
    and v: "phase1_visits (trace st1) = phase1_visits (trace st) @ concat Ls"
    by blast
  have "phase1_visits (trace st1) = phase1_visits (trace st0) @ rev addrs"
    using v c tr tr0 by simp
  with run p0 len d des show ?thesis by auto
qed

theorem phase1_reverse_allocation_order_witness:
  "all_fit [16, 24, 8000, 200] (Pool_ctor init_state)
   \<and> map_sum id fst (pool_news [16, 24, 8000, 200] (Pool_ctor init_state))
       = Inr [(1, 8176), (1, 8152), (1, 152), (2, 7992)]
   \<and> visits_after (then_Pool_dtor production_build
         (pool_news [16, 24, 8000, 200] (Pool_ctor init_state)))
       = Inr (rev [(1, 8176), (1, 8152), (1, 152), (2, 7992)])"
  using phase1_reverse_allocation_order [of "[16, 24, 8000, 200]" init_state production_build]
  by (simp add: pool_eval fits_block_def capacity_def Object_dtor_def visits_after_def
      production_build_def release_def emit_def retire_def)

text \<open>
  C3 as stated fails: of two objects, the one allocated second is finalised first, in
  the diagnostic and in the production build.
\<close>

theorem phase1_not_in_allocation_order:
  "map_sum id fst (pool_news [16, 24] (Pool_ctor init_state)) = Inr [(1, 8176), (1, 8152)]
   \<and> visits_after (then_Pool_dtor diagnostic_build (pool_news [16, 24] (Pool_ctor init_state)))
       = Inr [(1, 8152), (1, 8176)]
   \<and> visits_after (then_Pool_dtor production_build (pool_news [16, 24] (Pool_ctor init_state)))
       = Inr [(1, 8152), (1, 8176)]"
  by (simp add: pool_eval Object_dtor_def visits_after_def Destroy2_def CheckDeferredDestroy_def
      diagnostic_build_def production_build_def release_def emit_def retire_def gel_assert_def
      set_count_def PendingDestroy_def)

section \<open>C4: the second pass\<close>

text \<open>
  C4, as amended. Take a \<open>MEMORY_SAFE\<close> build and a pool whose blocks hold the objects
  \<open>Ls\<close>, all of them served from blocks: this is what client allocations that fit
  their blocks leave behind (\<open>pool_news_run\<close>), and it does not depend on the counts,
  which references to the objects change (\<open>pool_tiled_cong\<close>).

  While \<open>_exiting\<close> is unset the teardown makes two passes. The first pass runs to its
  end over all the objects: it finalises every object, sets the pending-destroy bits in
  its count and releases nothing. Only then does the second pass begin. It succeeds
  exactly when the count of every object stands at \<open>PendingDestroy\<close> after the first
  pass, and then each block is released after \<open>_Destroy2\<close> was called on each of its
  objects, so that the storage of every object is gone at the end; otherwise the
  teardown ends in the fatal error
  \<open>outstanding reference to destroyed pool-allocated object\<close>.

  Once \<open>_exiting\<close> is set there is no second pass: whatever the counts are, the
  teardown succeeds with a single pass that finalises the objects of a block and then
  releases the block.
\<close>

theorem phase2_checks_then_releases:
  assumes "MEMORY_SAFE cfg" and "pool_tiled st (p_top pool) Ls"
  shows "if exiting st
         then \<exists>st1. Pool_dtor cfg (pool, st) = Inr (pool\<lparr>p_top := []\<rparr>, st1)
                \<and> trace st1 = trace st @ single_pass_trace (p_top pool) Ls
                \<and> (\<forall>b\<in>set (p_top pool). heap st1 (b_id b) = None)
         else \<exists>st1. Destroy cfg (p_top pool) True st = Inr st1
                \<and> trace st1 = trace st @ phase1_trace (concat Ls) \<and> heap st1 = heap st
                \<and> (\<forall>a\<in>set (concat Ls).
                      count_of st1 a
                        = map_option (\<lambda>c. c OR PendingDestroy) (count_of st a))
                \<and> (if \<forall>a\<in>set (concat Ls). count_of st1 a = Some PendingDestroy
                    then \<exists>st2. Pool_dtor cfg (pool, st) = Inr (pool\<lparr>p_top := []\<rparr>, st2)
                           \<and> trace st2 = trace st1 @ phase2_trace (p_top pool) Ls
                           \<and> (\<forall>b\<in>set (p_top pool). heap st2 (b_id b) = None)
                           \<and> (\<forall>a\<in>set (concat Ls). mem st2 a = None)
                    else Pool_dtor cfg (pool, st)
                           = Inl (Fatal
                               ''outstanding reference to destroyed pool-allocated object''))"
proof (cases "exiting st")
  case True
  with assms(1) have m: "MEMORY_SAFE cfg \<longrightarrow> exiting st" by simp
  from Destroy_single_pass[OF assms(2) m] obtain st1 where
    d: "Destroy cfg (p_top pool) True st = Inr st1"
    and tr: "trace st1 = trace st @ single_pass_trace (p_top pool) Ls"
    and ex: "exiting st1 = exiting st"
    and h: "\<forall>j. heap st1 j = (if j \<in> b_id ` set (p_top pool) then None else heap st j)"
    by blast
  have "Pool_dtor cfg (pool, st) = Inr (pool\<lparr>p_top := []\<rparr>, st1)"
    using d ex True by (simp add: Pool_dtor_def seq_def)
  moreover have "\<forall>b\<in>set (p_top pool). heap st1 (b_id b) = None"
    using h by simp
  ultimately show ?thesis using tr True by simp
next
  case False
  from Destroy_pass1_post[OF assms(2,1) False] obtain st1 where
    d1: "Destroy cfg (p_top pool) True st = Inr st1"
    and post: "pass1_post cfg (concat Ls) st st1"
    by blast
  note tr1 = pass1_post_trace[OF post] and h1 = pass1_post_heap[OF post]
    and ex1 = pass1_post_exiting[OF post]
  have c1: "\<forall>a\<in>set (concat Ls).
              count_of st1 a = map_option (\<lambda>c. c OR PendingDestroy) (count_of st a)"
    using pass1_post_count[OF post] assms(1) False by simp
  have ne1: "\<not> exiting st1" using ex1 False by simp
  have "pool_tiled st1 (p_top pool) Ls = pool_tiled st (p_top pool) Ls"
  proof (rule pool_tiled_cong)
    show "sig_at st1 q = sig_at st q" for q by (rule pass1_post_sig[OF post])
    show "heap st1 i = heap st i" for i using h1 by simp
  qed
  with assms(2) have pt1: "pool_tiled st1 (p_top pool) Ls" by simp
  note d2 = Destroy_pass2[OF assms(1) ne1 pt1]
  have dtor: "Pool_dtor cfg (pool, st)
                = seq (Destroy cfg (p_top pool) False st1) (\<lambda>st2. Inr (pool\<lparr>p_top := []\<rparr>, st2))"
    using d1 ne1 assms(1) by (simp add: Pool_dtor_def seq_def)
  have last: "if \<forall>a\<in>set (concat Ls). count_of st1 a = Some PendingDestroy
               then \<exists>st2. Pool_dtor cfg (pool, st) = Inr (pool\<lparr>p_top := []\<rparr>, st2)
                      \<and> trace st2 = trace st1 @ phase2_trace (p_top pool) Ls
                      \<and> (\<forall>b\<in>set (p_top pool). heap st2 (b_id b) = None)
                      \<and> (\<forall>a\<in>set (concat Ls). mem st2 a = None)
               else Pool_dtor cfg (pool, st)
                      = Inl (Fatal ''outstanding reference to destroyed pool-allocated object'')"
  proof (cases "\<forall>a\<in>set (concat Ls). count_of st1 a = Some PendingDestroy")
    case True
    with d2 obtain st2 where r: "Destroy cfg (p_top pool) False st1 = Inr st2"
      and tr2: "trace st2 = trace st1 @ phase2_trace (p_top pool) Ls"
      and h2: "\<forall>j. heap st2 j = (if j \<in> b_id ` set (p_top pool) then None else heap st1 j)"
      and m2: "\<forall>q. mem st2 q = (if fst q \<in> b_id ` set (p_top pool) then None else mem st1 q)"
      by auto
    have hb: "\<forall>b\<in>set (p_top pool). heap st2 (b_id b) = None"
      using h2 by simp
    have ma: "\<forall>a\<in>set (concat Ls). mem st2 a = None"
    proof
      fix a assume "a \<in> set (concat Ls)"
      then have "fst a \<in> b_id ` set (p_top pool)" by (rule pool_tiled_addrs[OF pt1])
      with spec[OF m2, of a] show "mem st2 a = None" by simp
    qed
    from r tr2 dtor True hb ma show ?thesis by (simp add: seq_def)
  next
    case False
    with d2 dtor show ?thesis by (simp add: seq_def)
  qed
  from d1 tr1 h1 c1 last have
    "\<exists>st1. Destroy cfg (p_top pool) True st = Inr st1
                \<and> trace st1 = trace st @ phase1_trace (concat Ls) \<and> heap st1 = heap st
                \<and> (\<forall>a\<in>set (concat Ls).
                      count_of st1 a
                        = map_option (\<lambda>c. c OR PendingDestroy) (count_of st a))
                \<and> (if \<forall>a\<in>set (concat Ls). count_of st1 a = Some PendingDestroy
                    then \<exists>st2. Pool_dtor cfg (pool, st) = Inr (pool\<lparr>p_top := []\<rparr>, st2)
                           \<and> trace st2 = trace st1 @ phase2_trace (p_top pool) Ls
                           \<and> (\<forall>b\<in>set (p_top pool). heap st2 (b_id b) = None)
                           \<and> (\<forall>a\<in>set (concat Ls). mem st2 a = None)
                    else Pool_dtor cfg (pool, st)
                           = Inl (Fatal
                               ''outstanding reference to destroyed pool-allocated object''))"
    by blast
  with False show ?thesis by simp
qed

theorem phase2_checks_then_releases_witness:
  "(MEMORY_SAFE diagnostic_build
   \<and> pool_news [16, 24] (Pool_ctor init_state)
       = Inr ([(1, 8176), (1, 8152)], \<lparr>p_top = [\<lparr>b_id = 1, b_first = 8152\<rparr>]\<rparr>,
              construct Gel2Class 24 (1, 8152)
            (construct Gel2Class 16 (1, 8176) (snd (Pool_ctor init_state))))
   \<and> \<not> exiting (construct Gel2Class 24 (1, 8152)
            (construct Gel2Class 16 (1, 8176) (snd (Pool_ctor init_state))))
   \<and> pool_tiled (construct Gel2Class 24 (1, 8152)
            (construct Gel2Class 16 (1, 8176) (snd (Pool_ctor init_state))))
        (p_top \<lparr>p_top = [\<lparr>b_id = 1, b_first = 8152\<rparr>]\<rparr>) [[(1, 8152), (1, 8176)]]
   \<and> teardown_trace (Pool_dtor diagnostic_build
         (\<lparr>p_top = [\<lparr>b_id = 1, b_first = 8152\<rparr>]\<rparr>,
          construct Gel2Class 24 (1, 8152)
            (construct Gel2Class 16 (1, 8176) (snd (Pool_ctor init_state)))))
       = Inr [Phase1 (1, 8152), Finalize (1, 8152), Phase1 (1, 8176), Finalize (1, 8176),
              Phase2 (1, 8152), Phase2 (1, 8176), Release 1])
   \<and> (PtrInc diagnostic_build (1, 8176)
         (construct Gel2Class 24 (1, 8152)
            (construct Gel2Class 16 (1, 8176) (snd (Pool_ctor init_state))))
       = Inr (set_count (1, 8176) \<lparr>o_kind = Gel2Class, o_count = 0, o_size = 16\<rparr> 1
          (construct Gel2Class 24 (1, 8152)
            (construct Gel2Class 16 (1, 8176) (snd (Pool_ctor init_state)))))
   \<and> \<not> exiting (set_count (1, 8176) \<lparr>o_kind = Gel2Class, o_count = 0, o_size = 16\<rparr> 1
          (construct Gel2Class 24 (1, 8152)
            (construct Gel2Class 16 (1, 8176) (snd (Pool_ctor init_state)))))
   \<and> pool_tiled (set_count (1, 8176) \<lparr>o_kind = Gel2Class, o_count = 0, o_size = 16\<rparr> 1
          (construct Gel2Class 24 (1, 8152)
            (construct Gel2Class 16 (1, 8176) (snd (Pool_ctor init_state)))))
        (p_top \<lparr>p_top = [\<lparr>b_id = 1, b_first = 8152\<rparr>]\<rparr>) [[(1, 8152), (1, 8176)]]
   \<and> Pool_dtor diagnostic_build
         (\<lparr>p_top = [\<lparr>b_id = 1, b_first = 8152\<rparr>]\<rparr>,
          set_count (1, 8176) \<lparr>o_kind = Gel2Class, o_count = 0, o_size = 16\<rparr> 1
          (construct Gel2Class 24 (1, 8152)
            (construct Gel2Class 16 (1, 8176) (snd (Pool_ctor init_state)))))
       = Inl (Fatal ''outstanding reference to destroyed pool-allocated object''))
   \<and> (exiting (set_exiting
         (set_count (1, 8176) \<lparr>o_kind = Gel2Class, o_count = 0, o_size = 16\<rparr> 1
          (construct Gel2Class 24 (1, 8152)
            (construct Gel2Class 16 (1, 8176) (snd (Pool_ctor init_state))))))
   \<and> pool_tiled (set_exiting
         (set_count (1, 8176) \<lparr>o_kind = Gel2Class, o_count = 0, o_size = 16\<rparr> 1
          (construct Gel2Class 24 (1, 8152)
            (construct Gel2Class 16 (1, 8176) (snd (Pool_ctor init_state))))))
        (p_top \<lparr>p_top = [\<lparr>b_id = 1, b_first = 8152\<rparr>]\<rparr>) [[(1, 8152), (1, 8176)]]
   \<and> teardown_trace (Pool_dtor diagnostic_build
         (\<lparr>p_top = [\<lparr>b_id = 1, b_first = 8152\<rparr>]\<rparr>,
          set_exiting
         (set_count (1, 8176) \<lparr>o_kind = Gel2Class, o_count = 0, o_size = 16\<rparr> 1
          (construct Gel2Class 24 (1, 8152)
            (construct Gel2Class 16 (1, 8176) (snd (Pool_ctor init_state)))))))
       = Inr [Phase1 (1, 8152), Finalize (1, 8152), Phase1 (1, 8176), Finalize (1, 8176),
              Release 1])"
proof -
  have a: "MEMORY_SAFE diagnostic_build
   \<and> pool_news [16, 24] (Pool_ctor init_state)
       = Inr ([(1, 8176), (1, 8152)], \<lparr>p_top = [\<lparr>b_id = 1, b_first = 8152\<rparr>]\<rparr>,
              construct Gel2Class 24 (1, 8152)
            (construct Gel2Class 16 (1, 8176) (snd (Pool_ctor init_state))))
   \<and> \<not> exiting (construct Gel2Class 24 (1, 8152)
            (construct Gel2Class 16 (1, 8176) (snd (Pool_ctor init_state))))
   \<and> pool_tiled (construct Gel2Class 24 (1, 8152)
            (construct Gel2Class 16 (1, 8176) (snd (Pool_ctor init_state))))
        (p_top \<lparr>p_top = [\<lparr>b_id = 1, b_first = 8152\<rparr>]\<rparr>) [[(1, 8152), (1, 8176)]]
   \<and> teardown_trace (Pool_dtor diagnostic_build
         (\<lparr>p_top = [\<lparr>b_id = 1, b_first = 8152\<rparr>]\<rparr>,
          construct Gel2Class 24 (1, 8152)
            (construct Gel2Class 16 (1, 8176) (snd (Pool_ctor init_state)))))
       = Inr [Phase1 (1, 8152), Finalize (1, 8152), Phase1 (1, 8176), Finalize (1, 8176),
              Phase2 (1, 8152), Phase2 (1, 8176), Release 1]"
    using phase2_checks_then_releases [of diagnostic_build
        "construct Gel2Class 24 (1, 8152)
            (construct Gel2Class 16 (1, 8176) (snd (Pool_ctor init_state)))"
        "\<lparr>p_top = [\<lparr>b_id = 1, b_first = 8152\<rparr>]\<rparr>" "[[(1, 8152), (1, 8176)]]"]
    by (simp add: pool_eval Object_dtor_def teardown_trace_def Destroy2_def
        CheckDeferredDestroy_def diagnostic_build_def release_def emit_def retire_def
        gel_assert_def set_count_def PendingDestroy_def sig_at_def PtrInc_def set_exiting_def
        count_of_def)
  have b: "PtrInc diagnostic_build (1, 8176)
         (construct Gel2Class 24 (1, 8152)
            (construct Gel2Class 16 (1, 8176) (snd (Pool_ctor init_state))))
       = Inr (set_count (1, 8176) \<lparr>o_kind = Gel2Class, o_count = 0, o_size = 16\<rparr> 1
          (construct Gel2Class 24 (1, 8152)
            (construct Gel2Class 16 (1, 8176) (snd (Pool_ctor init_state)))))
   \<and> \<not> exiting (set_count (1, 8176) \<lparr>o_kind = Gel2Class, o_count = 0, o_size = 16\<rparr> 1
          (construct Gel2Class 24 (1, 8152)
            (construct Gel2Class 16 (1, 8176) (snd (Pool_ctor init_state)))))
   \<and> pool_tiled (set_count (1, 8176) \<lparr>o_kind = Gel2Class, o_count = 0, o_size = 16\<rparr> 1
          (construct Gel2Class 24 (1, 8152)
            (construct Gel2Class 16 (1, 8176) (snd (Pool_ctor init_state)))))
        (p_top \<lparr>p_top = [\<lparr>b_id = 1, b_first = 8152\<rparr>]\<rparr>) [[(1, 8152), (1, 8176)]]
   \<and> Pool_dtor diagnostic_build
         (\<lparr>p_top = [\<lparr>b_id = 1, b_first = 8152\<rparr>]\<rparr>,
          set_count (1, 8176) \<lparr>o_kind = Gel2Class, o_count = 0, o_size = 16\<rparr> 1
          (construct Gel2Class 24 (1, 8152)
            (construct Gel2Class 16 (1, 8176) (snd (Pool_ctor init_state)))))
       = Inl (Fatal ''outstanding reference to destroyed pool-allocated object'')"
    using phase2_checks_then_releases [of diagnostic_build
        "set_count (1, 8176) \<lparr>o_kind = Gel2Class, o_count = 0, o_size = 16\<rparr> 1
          (construct Gel2Class 24 (1, 8152)
            (construct Gel2Class 16 (1, 8176) (snd (Pool_ctor init_state))))"
        "\<lparr>p_top = [\<lparr>b_id = 1, b_first = 8152\<rparr>]\<rparr>" "[[(1, 8152), (1, 8176)]]"]
    by (simp add: pool_eval Object_dtor_def teardown_trace_def Destroy2_def
        CheckDeferredDestroy_def diagnostic_build_def release_def emit_def retire_def
        gel_assert_def set_count_def PendingDestroy_def sig_at_def PtrInc_def set_exiting_def
        count_of_def)
  have c: "exiting (set_exiting
         (set_count (1, 8176) \<lparr>o_kind = Gel2Class, o_count = 0, o_size = 16\<rparr> 1
          (construct Gel2Class 24 (1, 8152)
            (construct Gel2Class 16 (1, 8176) (snd (Pool_ctor init_state))))))
   \<and> pool_tiled (set_exiting
         (set_count (1, 8176) \<lparr>o_kind = Gel2Class, o_count = 0, o_size = 16\<rparr> 1
          (construct Gel2Class 24 (1, 8152)
            (construct Gel2Class 16 (1, 8176) (snd (Pool_ctor init_state))))))
        (p_top \<lparr>p_top = [\<lparr>b_id = 1, b_first = 8152\<rparr>]\<rparr>) [[(1, 8152), (1, 8176)]]
   \<and> teardown_trace (Pool_dtor diagnostic_build
         (\<lparr>p_top = [\<lparr>b_id = 1, b_first = 8152\<rparr>]\<rparr>,
          set_exiting
         (set_count (1, 8176) \<lparr>o_kind = Gel2Class, o_count = 0, o_size = 16\<rparr> 1
          (construct Gel2Class 24 (1, 8152)
            (construct Gel2Class 16 (1, 8176) (snd (Pool_ctor init_state)))))))
       = Inr [Phase1 (1, 8152), Finalize (1, 8152), Phase1 (1, 8176), Finalize (1, 8176),
              Release 1]"
    using phase2_checks_then_releases [of diagnostic_build
        "set_exiting
         (set_count (1, 8176) \<lparr>o_kind = Gel2Class, o_count = 0, o_size = 16\<rparr> 1
          (construct Gel2Class 24 (1, 8152)
            (construct Gel2Class 16 (1, 8176) (snd (Pool_ctor init_state)))))"
        "\<lparr>p_top = [\<lparr>b_id = 1, b_first = 8152\<rparr>]\<rparr>" "[[(1, 8152), (1, 8176)]]"]
    by (simp add: pool_eval Object_dtor_def teardown_trace_def Destroy2_def
        CheckDeferredDestroy_def diagnostic_build_def release_def emit_def retire_def
        gel_assert_def set_count_def PendingDestroy_def sig_at_def PtrInc_def set_exiting_def
        count_of_def)
  show ?thesis by (rule conjI[OF a conjI[OF b c]])
qed

text \<open>
  C4 as stated fails in a diagnostic build once \<open>_exiting\<close> is set: an object of the
  arena has an outstanding reference (its count is 1, not the sentinel), and the teardown
  still succeeds; it makes its single pass, never calls \<open>_Destroy2\<close> or the check, and
  releases the block.
\<close>

theorem exiting_teardown_releases_unchecked:
  "PtrInc diagnostic_build (1, 8176)
         (construct Gel2Class 24 (1, 8152)
            (construct Gel2Class 16 (1, 8176) (snd (Pool_ctor init_state))))
       = Inr (set_count (1, 8176) \<lparr>o_kind = Gel2Class, o_count = 0, o_size = 16\<rparr> 1
          (construct Gel2Class 24 (1, 8152)
            (construct Gel2Class 16 (1, 8176) (snd (Pool_ctor init_state)))))
   \<and> exiting (set_exiting
         (set_count (1, 8176) \<lparr>o_kind = Gel2Class, o_count = 0, o_size = 16\<rparr> 1
          (construct Gel2Class 24 (1, 8152)
            (construct Gel2Class 16 (1, 8176) (snd (Pool_ctor init_state))))))
   \<and> count_of (set_exiting
         (set_count (1, 8176) \<lparr>o_kind = Gel2Class, o_count = 0, o_size = 16\<rparr> 1
          (construct Gel2Class 24 (1, 8152)
            (construct Gel2Class 16 (1, 8176) (snd (Pool_ctor init_state)))))) (1, 8176) = Some 1
   \<and> teardown_trace (Pool_dtor diagnostic_build
         (\<lparr>p_top = [\<lparr>b_id = 1, b_first = 8152\<rparr>]\<rparr>,
          set_exiting
         (set_count (1, 8176) \<lparr>o_kind = Gel2Class, o_count = 0, o_size = 16\<rparr> 1
          (construct Gel2Class 24 (1, 8152)
            (construct Gel2Class 16 (1, 8176) (snd (Pool_ctor init_state)))))))
       = Inr [Phase1 (1, 8152), Finalize (1, 8152), Phase1 (1, 8176), Finalize (1, 8176),
              Release 1]"
  by (simp add: pool_eval Object_dtor_def teardown_trace_def Destroy2_def
        CheckDeferredDestroy_def diagnostic_build_def release_def emit_def retire_def
        gel_assert_def set_count_def PendingDestroy_def sig_at_def PtrInc_def set_exiting_def
        count_of_def)

section \<open>C5: destroying a value that is still referenced\<close>

text \<open>
  C5, as amended. In a \<open>MEMORY_SAFE\<close> build and while the process is not exiting
  (\<open>_exiting\<close> is unset), destroying through its \<open>_Own\<close> a value whose advisory count
  is nonzero and carries no pending-destroy bit ends the program with the fatal error
  \<open>outstanding reference to destroyed object\<close>: the destructor of the \<open>_Own\<close> and an
  assignment that replaces the value both yield that error and no state, so nothing is
  released and nothing runs afterwards.
\<close>

theorem dangling_reference_is_fatal:
  assumes "MEMORY_SAFE cfg" and "\<not> exiting st" and "obj_at st a = Inr ob"
    and "o_count ob \<noteq> 0" and "o_count ob AND PendingDestroy = 0"
  shows "Own_dtor cfg (Some a) st = Inl (Fatal ''outstanding reference to destroyed object'')
       \<and> (p \<noteq> Some a \<longrightarrow>
            Own_assign cfg (Some a) p st
              = Inl (Fatal ''outstanding reference to destroyed object''))"
  using delete_obj_fatal[OF assms]
  by (simp add: Own_dtor_def Own_assign_def seq_def)

text \<open>
  The scenario of the specification: construct a value, take a \<open>_Ptr\<close> to it, destroy
  it through its \<open>_Own\<close>.
\<close>

theorem dangling_reference_is_fatal_witness:
  "MEMORY_SAFE diagnostic_build
   \<and> \<not> exiting (snd (new_obj Gel2Class 16 init_state))
   \<and> Ptr_Init diagnostic_build (Some (1, 0)) (snd (new_obj Gel2Class 16 init_state))
       = Inr (Some (1, 0),
              set_count (1, 0) \<lparr>o_kind = Gel2Class, o_count = 0, o_size = 16\<rparr> 1
                (snd (new_obj Gel2Class 16 init_state)))
   \<and> obj_at (set_count (1, 0) \<lparr>o_kind = Gel2Class, o_count = 0, o_size = 16\<rparr> 1
                (snd (new_obj Gel2Class 16 init_state))) (1, 0)
       = Inr \<lparr>o_kind = Gel2Class, o_count = 1, o_size = 16\<rparr>
   \<and> (1 :: 32 word) \<noteq> 0 \<and> (1 :: 32 word) AND PendingDestroy = 0
   \<and> Own_dtor diagnostic_build (Some (1, 0))
         (set_count (1, 0) \<lparr>o_kind = Gel2Class, o_count = 0, o_size = 16\<rparr> 1
            (snd (new_obj Gel2Class 16 init_state)))
       = Inl (Fatal ''outstanding reference to destroyed object'')
   \<and> Own_assign diagnostic_build (Some (1, 0)) None
         (set_count (1, 0) \<lparr>o_kind = Gel2Class, o_count = 0, o_size = 16\<rparr> 1
            (snd (new_obj Gel2Class 16 init_state)))
       = Inl (Fatal ''outstanding reference to destroyed object'')"
  using dangling_reference_is_fatal [of diagnostic_build
      "set_count (1, 0) \<lparr>o_kind = Gel2Class, o_count = 0, o_size = 16\<rparr> 1
         (snd (new_obj Gel2Class 16 init_state))"
      "(1, 0)" "\<lparr>o_kind = Gel2Class, o_count = 1, o_size = 16\<rparr>" None]
  by (simp add: new_obj_def new_chars_def construct_def init_state_def obj_at_def
      diagnostic_build_def set_count_def Ptr_Init_def PtrInc_def seq_def PendingDestroy_def)

text \<open>
  C5 as stated fails once \<open>_exiting\<close> is set: the same destruction then passes the
  assertion of \<open>~_Object\<close> and the value is destroyed and released without any report.
\<close>

theorem dangling_reference_unreported_when_exiting:
  "MEMORY_SAFE diagnostic_build
   \<and> Ptr_Init diagnostic_build (Some (1, 0)) (snd (new_obj Gel2Class 16 init_state))
       = Inr (Some (1, 0),
              set_count (1, 0) \<lparr>o_kind = Gel2Class, o_count = 0, o_size = 16\<rparr> 1
                (snd (new_obj Gel2Class 16 init_state)))
   \<and> count_of (set_exiting
         (set_count (1, 0) \<lparr>o_kind = Gel2Class, o_count = 0, o_size = 16\<rparr> 1
            (snd (new_obj Gel2Class 16 init_state)))) (1, 0) = Some 1
   \<and> (1 :: 32 word) \<noteq> 0 \<and> (1 :: 32 word) AND PendingDestroy = 0
   \<and> trace_after (Own_dtor diagnostic_build (Some (1, 0))
         (set_exiting
            (set_count (1, 0) \<lparr>o_kind = Gel2Class, o_count = 0, o_size = 16\<rparr> 1
               (snd (new_obj Gel2Class 16 init_state)))))
       = Inr [Finalize (1, 0), Release 1]"
  by (simp add: new_obj_def new_chars_def construct_def init_state_def obj_at_def
      diagnostic_build_def set_count_def Ptr_Init_def PtrInc_def seq_def PendingDestroy_def
      set_exiting_def count_of_def trace_after_def Own_dtor_def delete_obj_def Object_dtor_def
      gel_assert_def release_def emit_def retire_def)

section \<open>C6: the shared count\<close>

subsection \<open>The decrement that reaches zero\<close>






subsection \<open>The claim\<close>



section \<open>C7: assignment to an owning pointer, and its destructor\<close>

text \<open>
  C7. Let an \<open>_Own\<close> hold the heap value at \<open>a\<close>, a value whose destruction the
  diagnostics accept. Assigning a different handle \<open>p\<close> first destroys the value at
  \<open>a\<close> (destructor, then storage) and then stores \<open>p\<close>; assigning the handle already
  held changes nothing; a pointer that holds nothing just stores \<open>p\<close>. The destructor
  of the \<open>_Own\<close> destroys the value at \<open>a\<close>, and does nothing for a null handle. In
  every case the assignment is the destruction of the held value followed by the store.
\<close>

theorem Own_assign_destroys_then_stores:
  assumes "obj_at st a = Inr ob" and "heap_object st a"
    and "MEMORY_SAFE cfg \<longrightarrow> exiting st \<or> o_count ob = 0 \<or> o_count ob AND PendingDestroy \<noteq> 0"
  shows "(p \<noteq> Some a \<longrightarrow> Own_assign cfg (Some a) p st = Inr (p, destroyed a st))
       \<and> Own_assign cfg (Some a) (Some a) st = Inr (Some a, st)
       \<and> Own_assign cfg None p st = Inr (p, st)
       \<and> Own_dtor cfg (Some a) st = Inr (destroyed a st)
       \<and> Own_dtor cfg None st = Inr st
       \<and> mem (destroyed a st) a = None
       \<and> trace (destroyed a st) = trace st @ [Finalize a, Release (fst a)]
       \<and> (p \<noteq> held \<longrightarrow>
            Own_assign cfg held p st = seq (delete_obj cfg held st) (\<lambda>st1. Inr (p, st1)))"
proof -
  have d: "delete_obj cfg (Some a) st = Inr (destroyed a st)"
    using delete_obj_ok[OF assms(1,2), of cfg] assms(3) by blast
  have n: "Own_assign cfg None p st = Inr (p, st)"
    by (cases p) (simp_all add: Own_assign_def seq_def delete_obj_def)
  show ?thesis
    using d n by (simp add: Own_assign_def Own_dtor_def seq_def delete_obj_def)
qed

theorem Own_assign_destroys_then_stores_witness:
  "obj_at (snd (new_obj Gel2Class 16 init_state)) (1, 0)
     = Inr \<lparr>o_kind = Gel2Class, o_count = 0, o_size = 16\<rparr>
   \<and> heap_object (snd (new_obj Gel2Class 16 init_state)) (1, 0)
   \<and> MEMORY_SAFE diagnostic_build
   \<and> o_count \<lparr>o_kind = Gel2Class, o_count = 0, o_size = 16\<rparr> = 0
   \<and> Own_assign diagnostic_build (Some (1, 0)) None (snd (new_obj Gel2Class 16 init_state))
       = Inr (None, destroyed (1, 0) (snd (new_obj Gel2Class 16 init_state)))
   \<and> Own_assign diagnostic_build (Some (1, 0)) (Some (1, 0))
         (snd (new_obj Gel2Class 16 init_state))
       = Inr (Some (1, 0), snd (new_obj Gel2Class 16 init_state))
   \<and> Own_dtor diagnostic_build (Some (1, 0)) (snd (new_obj Gel2Class 16 init_state))
       = Inr (destroyed (1, 0) (snd (new_obj Gel2Class 16 init_state)))
   \<and> trace (destroyed (1, 0) (snd (new_obj Gel2Class 16 init_state)))
       = [Finalize (1, 0), Release 1]"
  using Own_assign_destroys_then_stores [of "snd (new_obj Gel2Class 16 init_state)" "(1, 0)"
      "\<lparr>o_kind = Gel2Class, o_count = 0, o_size = 16\<rparr>" diagnostic_build None "Some (1, 0)"]
  by (simp add: new_obj_def new_chars_def construct_def init_state_def obj_at_def
      heap_object_def diagnostic_build_def)

section \<open>C8: \<open>Take\<close>\<close>

subsection \<open>\<open>Take\<close>, and the owner that comes after it\<close>

lemma obj_at_string_at:
  "obj_at st a = Inr ob \<Longrightarrow> is_string ob \<Longrightarrow> string_at st a = Inr ob"
  by (auto simp: string_at_def obj_at_def is_string_def
      split: option.splits cell.splits kind.splits)

lemma set_count_same:
  "obj_at st a = Inr ob \<Longrightarrow> set_count a ob (o_count ob) st = st"
  by (auto simp: set_count_def obj_at_def fun_upd_idem split: option.splits cell.splits)

lemma OwnRef_Take_result:
  assumes "obj_at st a = Inr ob"
  shows "OwnRef_Take cfg (Some a) st =
           (if is_string ob
            then (if EXTRA_SAFE cfg \<and> \<not> 0 <s o_count ob
                  then Inl (Fatal ''internal string ref count failure'')
                  else Inr (Some a, None, set_count a ob (o_count ob - 1) st))
            else Inr (Some a, None, st))"
proof (cases "is_string ob")
  case True
  note s = obj_at_string_at[OF assms True]
  show ?thesis
    using assms True s
    by (simp add: OwnRef_Take_def OwnSub_def String_Dec_def seq_def gel_assert_def)
next
  case False
  with assms show ?thesis by (simp add: OwnRef_Take_def OwnSub_def seq_def)
qed

lemma OwnRef_ctor_after_Take:
  assumes "obj_at st a = Inr ob" and "OwnRef_Take cfg (Some a) st = Inr (Some a, None, st1)"
  shows "trace st1 = trace st \<and> heap st1 = heap st \<and> mem st1 a \<noteq> None
         \<and> OwnRef_dtor cfg None st1 = Inr st1
         \<and> OwnRef_ctor (Some a) st1 = Inr (Some a, st)"
proof (cases "is_string ob")
  case True
  note s = obj_at_string_at[OF assms(1) True]
  from assms(2) OwnRef_Take_result[OF assms(1), of cfg] True
  have st1: "st1 = set_count a ob (o_count ob - 1) st"
    by (simp split: if_splits)
  have "OwnRef_ctor (Some a) st1 = Inr (Some a, st)"
    using s True set_count_same[OF assms(1)] st1
    by (simp add: OwnRef_ctor_def OwnRefInc_def RefInc_def seq_def string_at_set_count
        is_string_def)
  with st1 show ?thesis by (simp add: OwnRef_dtor_def)
next
  case False
  from assms(2) OwnRef_Take_result[OF assms(1), of cfg] False have st1: "st1 = st" by simp
  have "mem st a \<noteq> None"
    using assms(1) by (auto simp: obj_at_def split: option.splits)
  with st1 assms(1) False show ?thesis
    by (simp add: OwnRef_dtor_def OwnRef_ctor_def OwnRefInc_def seq_def)
qed

lemma OwnRef_dtor_string:
  assumes "obj_at st a = Inr ob" and "is_string ob" and "EXTRA_SAFE cfg \<longrightarrow> 0 <s o_count ob"
  shows "if o_count ob = 1
         then heap_object st a \<longrightarrow> OwnRef_dtor cfg (Some a) st = Inr (destroyed a st)
         else OwnRef_dtor cfg (Some a) st = Inr (set_count a ob (o_count ob - 1) st)"
proof -
  note s = obj_at_string_at[OF assms(1,2)]
  have dec: "String_Dec cfg a st = Inr (set_count a ob (o_count ob - 1) st)"
    using s assms(3) by (simp add: String_Dec_def seq_def gel_assert_def)
  show ?thesis
  proof (cases "o_count ob = 1")
    case True
    have "OwnRef_dtor cfg (Some a) st = Inr (destroyed a st)" if hp: "heap_object st a"
    proof -
      have del: "delete_obj cfg (Some a) (set_count a ob 0 st) = Inr (destroyed a st)"
        using delete_obj_ok[of "set_count a ob 0 st" a "ob\<lparr>o_count := 0\<rparr>" cfg] hp
        by (simp add: heap_object_def)
      show ?thesis
        using assms(1,2) s True dec del
        by (simp add: OwnRef_dtor_def OwnRefDec_def RefDec_def seq_def string_at_set_count)
    qed
    with True show ?thesis by simp
  next
    case False
    then show ?thesis
      using assms(1,2) s dec
      by (simp add: OwnRef_dtor_def OwnRefDec_def RefDec_def seq_def string_at_set_count)
  qed
qed

lemma owner_dtor_object:
  assumes "obj_at st a = Inr ob" and "\<not> is_string ob" and "heap_object st a"
    and "MEMORY_SAFE cfg \<longrightarrow> exiting st \<or> o_count ob = 0 \<or> o_count ob AND PendingDestroy \<noteq> 0"
  shows "Own_dtor cfg (Some a) st = Inr (destroyed a st)
         \<and> OwnRef_dtor cfg (Some a) st = Inr (destroyed a st)"
proof -
  from assms have del: "delete_obj cfg (Some a) st = Inr (destroyed a st)"
    using delete_obj_ok[of st a ob cfg] by auto
  with assms(1,2) show ?thesis
    by (simp add: Own_dtor_def OwnRef_dtor_def OwnRefDec_def seq_def)
qed

subsection \<open>The claim\<close>

text \<open>
  C8, as amended. Let an owning pointer hold the value at \<open>a\<close>. \<open>Take\<close> returns the
  handle, leaves null in the source and destroys nothing. For \<open>_Own\<close> it does not touch
  the state at all. For \<open>_OwnRef\<close> it leaves an object that is no string as it is, and
  lowers the count of a string by one without destroying it, even when the count reaches
  zero (in an \<open>EXTRA_SAFE\<close> build a count that is not positive is the fatal error
  \<open>internal string ref count failure\<close> instead). After a \<open>Take\<close> the value is still in
  memory and no destruction event has happened; destroying the source, now null, changes
  nothing; and a new \<open>_OwnRef\<close> constructed from the returned handle brings the state
  back to what it was before the \<open>Take\<close>.

  The destruction of the new owner destroys the value, finalised and released exactly
  once, when the value is an exclusively owned heap object whose destruction the
  diagnostics accept, or a heap string whose count stands at one. A string that has
  further holders is not destroyed by its new owner: its count is lowered by one and it
  stays in memory, with no destruction event.
\<close>

theorem Take_moves_without_destroying:
  assumes "obj_at st a = Inr ob"
  shows "Own_Take (Some a) = (Some a, None)
       \<and> Own_dtor cfg None st = Inr st
       \<and> OwnRef_Take cfg (Some a) st =
           (if is_string ob
            then (if EXTRA_SAFE cfg \<and> \<not> 0 <s o_count ob
                  then Inl (Fatal ''internal string ref count failure'')
                  else Inr (Some a, None, set_count a ob (o_count ob - 1) st))
            else Inr (Some a, None, st))
       \<and> (\<forall>st1. OwnRef_Take cfg (Some a) st = Inr (Some a, None, st1)
             \<longrightarrow> trace st1 = trace st \<and> heap st1 = heap st \<and> mem st1 a \<noteq> None
                 \<and> OwnRef_dtor cfg None st1 = Inr st1
                 \<and> OwnRef_ctor (Some a) st1 = Inr (Some a, st))
       \<and> (\<not> is_string ob \<and> heap_object st a
            \<and> (MEMORY_SAFE cfg \<longrightarrow>
                  exiting st \<or> o_count ob = 0 \<or> o_count ob AND PendingDestroy \<noteq> 0)
            \<longrightarrow> Own_dtor cfg (Some a) st = Inr (destroyed a st)
                \<and> OwnRef_dtor cfg (Some a) st = Inr (destroyed a st))
       \<and> (is_string ob \<and> (EXTRA_SAFE cfg \<longrightarrow> 0 <s o_count ob)
            \<longrightarrow> (if o_count ob = 1
                 then heap_object st a
                        \<longrightarrow> OwnRef_dtor cfg (Some a) st = Inr (destroyed a st)
                 else OwnRef_dtor cfg (Some a) st
                        = Inr (set_count a ob (o_count ob - 1) st)))
       \<and> trace (destroyed a st) = trace st @ [Finalize a, Release (fst a)]
       \<and> mem (destroyed a st) a = None
       \<and> trace (set_count a ob (o_count ob - 1) st) = trace st
       \<and> count_of (set_count a ob (o_count ob - 1) st) a = Some (o_count ob - 1)"
proof -
  have own: "Own_Take (Some a) = (Some a, None)" "Own_dtor cfg None st = Inr st"
    by (simp_all add: Own_Take_def Own_dtor_def delete_obj_def)
  note t = OwnRef_Take_result[OF assms, of cfg]
  have c: "\<forall>st1. OwnRef_Take cfg (Some a) st = Inr (Some a, None, st1)
             \<longrightarrow> trace st1 = trace st \<and> heap st1 = heap st \<and> mem st1 a \<noteq> None
                 \<and> OwnRef_dtor cfg None st1 = Inr st1
                 \<and> OwnRef_ctor (Some a) st1 = Inr (Some a, st)"
    using OwnRef_ctor_after_Take[OF assms] by blast
  have d1: "\<not> is_string ob \<and> heap_object st a
            \<and> (MEMORY_SAFE cfg \<longrightarrow>
                  exiting st \<or> o_count ob = 0 \<or> o_count ob AND PendingDestroy \<noteq> 0)
            \<longrightarrow> Own_dtor cfg (Some a) st = Inr (destroyed a st)
                \<and> OwnRef_dtor cfg (Some a) st = Inr (destroyed a st)"
    using owner_dtor_object[OF assms, of cfg] by blast
  have d2: "is_string ob \<and> (EXTRA_SAFE cfg \<longrightarrow> 0 <s o_count ob)
            \<longrightarrow> (if o_count ob = 1
                 then heap_object st a
                        \<longrightarrow> OwnRef_dtor cfg (Some a) st = Inr (destroyed a st)
                 else OwnRef_dtor cfg (Some a) st
                        = Inr (set_count a ob (o_count ob - 1) st))"
    using OwnRef_dtor_string[OF assms, of cfg] by blast
  have e: "trace (destroyed a st) = trace st @ [Finalize a, Release (fst a)]"
    "mem (destroyed a st) a = None"
    "trace (set_count a ob (o_count ob - 1) st) = trace st"
    "count_of (set_count a ob (o_count ob - 1) st) a = Some (o_count ob - 1)"
    by (simp_all add: count_of_def set_count_def)
  from own t c d1 d2 e show ?thesis by (intro conjI)
qed

theorem Take_moves_without_destroying_witness:
  "(obj_at (snd (new_obj Gel2Class 16 init_state)) (1, 0)
     = Inr \<lparr>o_kind = Gel2Class, o_count = 0, o_size = 16\<rparr>
   \<and> \<not> is_string \<lparr>o_kind = Gel2Class, o_count = 0, o_size = 16\<rparr>
   \<and> heap_object (snd (new_obj Gel2Class 16 init_state)) (1, 0)
   \<and> Own_Take (Some (1, 0)) = (Some (1, 0), None)
   \<and> Own_dtor diagnostic_build None (snd (new_obj Gel2Class 16 init_state))
       = Inr (snd (new_obj Gel2Class 16 init_state))
   \<and> OwnRef_Take diagnostic_build (Some (1, 0)) (snd (new_obj Gel2Class 16 init_state))
       = Inr (Some (1, 0), None, snd (new_obj Gel2Class 16 init_state))
   \<and> OwnRef_ctor (Some (1, 0)) (snd (new_obj Gel2Class 16 init_state))
       = Inr (Some (1, 0), snd (new_obj Gel2Class 16 init_state))
   \<and> trace_after (Own_dtor diagnostic_build (Some (1, 0))
         (snd (new_obj Gel2Class 16 init_state))) = Inr [Finalize (1, 0), Release 1]
   \<and> trace_after (OwnRef_dtor diagnostic_build (Some (1, 0))
         (snd (new_obj Gel2Class 16 init_state))) = Inr [Finalize (1, 0), Release 1])
   \<and> (obj_at (set_count (1, 0) \<lparr>o_kind = StringObj ''abc'', o_count = 0, o_size = 32\<rparr> 1
            (snd (new_obj (StringObj ''abc'') 32 init_state))) (1, 0)
       = Inr \<lparr>o_kind = StringObj ''abc'', o_count = 1, o_size = 32\<rparr>
   \<and> is_string \<lparr>o_kind = StringObj ''abc'', o_count = 1, o_size = 32\<rparr>
   \<and> (0::32 word) <s 1
   \<and> heap_object (set_count (1, 0) \<lparr>o_kind = StringObj ''abc'', o_count = 0, o_size = 32\<rparr> 1
            (snd (new_obj (StringObj ''abc'') 32 init_state))) (1, 0)
   \<and> OwnRef_Take checked_build (Some (1, 0))
         (set_count (1, 0) \<lparr>o_kind = StringObj ''abc'', o_count = 0, o_size = 32\<rparr> 1
            (snd (new_obj (StringObj ''abc'') 32 init_state)))
       = Inr (Some (1, 0), None,
              set_count (1, 0) \<lparr>o_kind = StringObj ''abc'', o_count = 0, o_size = 32\<rparr> 0
            (snd (new_obj (StringObj ''abc'') 32 init_state)))
   \<and> trace (set_count (1, 0) \<lparr>o_kind = StringObj ''abc'', o_count = 0, o_size = 32\<rparr> 0
            (snd (new_obj (StringObj ''abc'') 32 init_state))) = []
   \<and> OwnRef_ctor (Some (1, 0))
         (set_count (1, 0) \<lparr>o_kind = StringObj ''abc'', o_count = 0, o_size = 32\<rparr> 0
            (snd (new_obj (StringObj ''abc'') 32 init_state)))
       = Inr (Some (1, 0),
              set_count (1, 0) \<lparr>o_kind = StringObj ''abc'', o_count = 0, o_size = 32\<rparr> 1
            (snd (new_obj (StringObj ''abc'') 32 init_state)))
   \<and> trace_after (OwnRef_dtor checked_build (Some (1, 0))
         (set_count (1, 0) \<lparr>o_kind = StringObj ''abc'', o_count = 0, o_size = 32\<rparr> 1
            (snd (new_obj (StringObj ''abc'') 32 init_state))))
       = Inr [Finalize (1, 0), Release 1])
   \<and> (obj_at (set_count (1, 0) \<lparr>o_kind = StringObj ''abc'', o_count = 0, o_size = 32\<rparr> 2
            (snd (new_obj (StringObj ''abc'') 32 init_state))) (1, 0)
       = Inr \<lparr>o_kind = StringObj ''abc'', o_count = 2, o_size = 32\<rparr>
   \<and> (0::32 word) <s 2
   \<and> OwnRef_Take checked_build (Some (1, 0))
         (set_count (1, 0) \<lparr>o_kind = StringObj ''abc'', o_count = 0, o_size = 32\<rparr> 2
            (snd (new_obj (StringObj ''abc'') 32 init_state)))
       = Inr (Some (1, 0), None,
              set_count (1, 0) \<lparr>o_kind = StringObj ''abc'', o_count = 0, o_size = 32\<rparr> 1
            (snd (new_obj (StringObj ''abc'') 32 init_state)))
   \<and> OwnRef_ctor (Some (1, 0))
         (set_count (1, 0) \<lparr>o_kind = StringObj ''abc'', o_count = 0, o_size = 32\<rparr> 1
            (snd (new_obj (StringObj ''abc'') 32 init_state)))
       = Inr (Some (1, 0),
              set_count (1, 0) \<lparr>o_kind = StringObj ''abc'', o_count = 0, o_size = 32\<rparr> 2
            (snd (new_obj (StringObj ''abc'') 32 init_state)))
   \<and> OwnRef_dtor checked_build (Some (1, 0))
         (set_count (1, 0) \<lparr>o_kind = StringObj ''abc'', o_count = 0, o_size = 32\<rparr> 2
            (snd (new_obj (StringObj ''abc'') 32 init_state)))
       = Inr (set_count (1, 0) \<lparr>o_kind = StringObj ''abc'', o_count = 0, o_size = 32\<rparr> 1
            (snd (new_obj (StringObj ''abc'') 32 init_state)))
   \<and> trace (set_count (1, 0) \<lparr>o_kind = StringObj ''abc'', o_count = 0, o_size = 32\<rparr> 1
            (snd (new_obj (StringObj ''abc'') 32 init_state))) = [])"
proof -
  have a: "obj_at (snd (new_obj Gel2Class 16 init_state)) (1, 0)
     = Inr \<lparr>o_kind = Gel2Class, o_count = 0, o_size = 16\<rparr>
   \<and> \<not> is_string \<lparr>o_kind = Gel2Class, o_count = 0, o_size = 16\<rparr>
   \<and> heap_object (snd (new_obj Gel2Class 16 init_state)) (1, 0)
   \<and> Own_Take (Some (1, 0)) = (Some (1, 0), None)
   \<and> Own_dtor diagnostic_build None (snd (new_obj Gel2Class 16 init_state))
       = Inr (snd (new_obj Gel2Class 16 init_state))
   \<and> OwnRef_Take diagnostic_build (Some (1, 0)) (snd (new_obj Gel2Class 16 init_state))
       = Inr (Some (1, 0), None, snd (new_obj Gel2Class 16 init_state))
   \<and> OwnRef_ctor (Some (1, 0)) (snd (new_obj Gel2Class 16 init_state))
       = Inr (Some (1, 0), snd (new_obj Gel2Class 16 init_state))
   \<and> trace_after (Own_dtor diagnostic_build (Some (1, 0))
         (snd (new_obj Gel2Class 16 init_state))) = Inr [Finalize (1, 0), Release 1]
   \<and> trace_after (OwnRef_dtor diagnostic_build (Some (1, 0))
         (snd (new_obj Gel2Class 16 init_state))) = Inr [Finalize (1, 0), Release 1]"
    using Take_moves_without_destroying [of
        "snd (new_obj Gel2Class 16 init_state)" "(1, 0)"
        "\<lparr>o_kind = Gel2Class, o_count = 0, o_size = 16\<rparr>" diagnostic_build]
    by (simp add: new_obj_def new_chars_def construct_def init_state_def obj_at_def
        heap_object_def diagnostic_build_def is_string_def OwnRef_Take_def OwnSub_def seq_def
        gel_assert_def trace_after_def OwnRef_dtor_def OwnRefDec_def delete_obj_def
        Object_dtor_def release_def Own_dtor_def Own_Take_def destroyed_def
        OwnRef_ctor_def OwnRefInc_def emit_def retire_def)
  have b: "obj_at (set_count (1, 0) \<lparr>o_kind = StringObj ''abc'', o_count = 0, o_size = 32\<rparr> 1
            (snd (new_obj (StringObj ''abc'') 32 init_state))) (1, 0)
       = Inr \<lparr>o_kind = StringObj ''abc'', o_count = 1, o_size = 32\<rparr>
   \<and> is_string \<lparr>o_kind = StringObj ''abc'', o_count = 1, o_size = 32\<rparr>
   \<and> (0::32 word) <s 1
   \<and> heap_object (set_count (1, 0) \<lparr>o_kind = StringObj ''abc'', o_count = 0, o_size = 32\<rparr> 1
            (snd (new_obj (StringObj ''abc'') 32 init_state))) (1, 0)
   \<and> OwnRef_Take checked_build (Some (1, 0))
         (set_count (1, 0) \<lparr>o_kind = StringObj ''abc'', o_count = 0, o_size = 32\<rparr> 1
            (snd (new_obj (StringObj ''abc'') 32 init_state)))
       = Inr (Some (1, 0), None,
              set_count (1, 0) \<lparr>o_kind = StringObj ''abc'', o_count = 0, o_size = 32\<rparr> 0
            (snd (new_obj (StringObj ''abc'') 32 init_state)))
   \<and> trace (set_count (1, 0) \<lparr>o_kind = StringObj ''abc'', o_count = 0, o_size = 32\<rparr> 0
            (snd (new_obj (StringObj ''abc'') 32 init_state))) = []
   \<and> OwnRef_ctor (Some (1, 0))
         (set_count (1, 0) \<lparr>o_kind = StringObj ''abc'', o_count = 0, o_size = 32\<rparr> 0
            (snd (new_obj (StringObj ''abc'') 32 init_state)))
       = Inr (Some (1, 0),
              set_count (1, 0) \<lparr>o_kind = StringObj ''abc'', o_count = 0, o_size = 32\<rparr> 1
            (snd (new_obj (StringObj ''abc'') 32 init_state)))
   \<and> trace_after (OwnRef_dtor checked_build (Some (1, 0))
         (set_count (1, 0) \<lparr>o_kind = StringObj ''abc'', o_count = 0, o_size = 32\<rparr> 1
            (snd (new_obj (StringObj ''abc'') 32 init_state))))
       = Inr [Finalize (1, 0), Release 1]"
    using Take_moves_without_destroying [of
        "set_count (1, 0) \<lparr>o_kind = StringObj ''abc'', o_count = 0, o_size = 32\<rparr> 1
            (snd (new_obj (StringObj ''abc'') 32 init_state))" "(1, 0)"
        "\<lparr>o_kind = StringObj ''abc'', o_count = 1, o_size = 32\<rparr>" checked_build]
    by (simp add: new_obj_def new_chars_def construct_def init_state_def obj_at_def
        heap_object_def checked_build_def is_string_def OwnRef_Take_def OwnSub_def
        String_Dec_def seq_def gel_assert_def word_sless_alt string_at_def trace_after_def
        OwnRef_dtor_def OwnRefDec_def RefDec_def delete_obj_def Object_dtor_def release_def
        set_count_def destroyed_def OwnRef_ctor_def OwnRefInc_def RefInc_def emit_def
        retire_def)
  have c: "obj_at (set_count (1, 0) \<lparr>o_kind = StringObj ''abc'', o_count = 0, o_size = 32\<rparr> 2
            (snd (new_obj (StringObj ''abc'') 32 init_state))) (1, 0)
       = Inr \<lparr>o_kind = StringObj ''abc'', o_count = 2, o_size = 32\<rparr>
   \<and> (0::32 word) <s 2
   \<and> OwnRef_Take checked_build (Some (1, 0))
         (set_count (1, 0) \<lparr>o_kind = StringObj ''abc'', o_count = 0, o_size = 32\<rparr> 2
            (snd (new_obj (StringObj ''abc'') 32 init_state)))
       = Inr (Some (1, 0), None,
              set_count (1, 0) \<lparr>o_kind = StringObj ''abc'', o_count = 0, o_size = 32\<rparr> 1
            (snd (new_obj (StringObj ''abc'') 32 init_state)))
   \<and> OwnRef_ctor (Some (1, 0))
         (set_count (1, 0) \<lparr>o_kind = StringObj ''abc'', o_count = 0, o_size = 32\<rparr> 1
            (snd (new_obj (StringObj ''abc'') 32 init_state)))
       = Inr (Some (1, 0),
              set_count (1, 0) \<lparr>o_kind = StringObj ''abc'', o_count = 0, o_size = 32\<rparr> 2
            (snd (new_obj (StringObj ''abc'') 32 init_state)))
   \<and> OwnRef_dtor checked_build (Some (1, 0))
         (set_count (1, 0) \<lparr>o_kind = StringObj ''abc'', o_count = 0, o_size = 32\<rparr> 2
            (snd (new_obj (StringObj ''abc'') 32 init_state)))
       = Inr (set_count (1, 0) \<lparr>o_kind = StringObj ''abc'', o_count = 0, o_size = 32\<rparr> 1
            (snd (new_obj (StringObj ''abc'') 32 init_state)))
   \<and> trace (set_count (1, 0) \<lparr>o_kind = StringObj ''abc'', o_count = 0, o_size = 32\<rparr> 1
            (snd (new_obj (StringObj ''abc'') 32 init_state))) = []"
    using Take_moves_without_destroying [of
        "set_count (1, 0) \<lparr>o_kind = StringObj ''abc'', o_count = 0, o_size = 32\<rparr> 2
            (snd (new_obj (StringObj ''abc'') 32 init_state))" "(1, 0)"
        "\<lparr>o_kind = StringObj ''abc'', o_count = 2, o_size = 32\<rparr>" checked_build]
    by (simp add: new_obj_def new_chars_def construct_def init_state_def obj_at_def
        heap_object_def checked_build_def is_string_def OwnRef_Take_def OwnSub_def
        String_Dec_def seq_def gel_assert_def word_sless_alt string_at_def trace_after_def
        OwnRef_dtor_def OwnRefDec_def RefDec_def delete_obj_def Object_dtor_def release_def
        set_count_def destroyed_def OwnRef_ctor_def OwnRefInc_def RefInc_def emit_def
        retire_def)
  show ?thesis by (rule conjI[OF a conjI[OF b c]])
qed

text \<open>
  C8 as stated fails for a string that an \<open>_OwnRef\<close> and a \<open>_Ref\<close> hold together: after
  the \<open>Take\<close> a new \<open>_OwnRef\<close> is constructed from the handle and destroyed, in a
  diagnostic and in a production build, and the string is still there with the count 1;
  nothing was finalised or released.
\<close>

theorem Take_shared_string_survives_new_owner:
  "OwnRef_ctor (Some (1, 0)) (snd (new_obj (StringObj ''abc'') 32 init_state))
     = Inr (Some (1, 0),
            set_count (1, 0) \<lparr>o_kind = StringObj ''abc'', o_count = 0, o_size = 32\<rparr> 1
              (snd (new_obj (StringObj ''abc'') 32 init_state)))
   \<and> Ref_Init (Some (1, 0))
         (set_count (1, 0) \<lparr>o_kind = StringObj ''abc'', o_count = 0, o_size = 32\<rparr> 1
            (snd (new_obj (StringObj ''abc'') 32 init_state)))
       = Inr (Some (1, 0),
              set_count (1, 0) \<lparr>o_kind = StringObj ''abc'', o_count = 0, o_size = 32\<rparr> 2
                (snd (new_obj (StringObj ''abc'') 32 init_state)))
   \<and> OwnRef_Take diagnostic_build (Some (1, 0))
         (set_count (1, 0) \<lparr>o_kind = StringObj ''abc'', o_count = 0, o_size = 32\<rparr> 2
            (snd (new_obj (StringObj ''abc'') 32 init_state)))
       = Inr (Some (1, 0), None,
              set_count (1, 0) \<lparr>o_kind = StringObj ''abc'', o_count = 0, o_size = 32\<rparr> 1
                (snd (new_obj (StringObj ''abc'') 32 init_state)))
   \<and> OwnRef_ctor (Some (1, 0))
         (set_count (1, 0) \<lparr>o_kind = StringObj ''abc'', o_count = 0, o_size = 32\<rparr> 1
            (snd (new_obj (StringObj ''abc'') 32 init_state)))
       = Inr (Some (1, 0),
              set_count (1, 0) \<lparr>o_kind = StringObj ''abc'', o_count = 0, o_size = 32\<rparr> 2
                (snd (new_obj (StringObj ''abc'') 32 init_state)))
   \<and> OwnRef_dtor diagnostic_build (Some (1, 0))
         (set_count (1, 0) \<lparr>o_kind = StringObj ''abc'', o_count = 0, o_size = 32\<rparr> 2
            (snd (new_obj (StringObj ''abc'') 32 init_state)))
       = Inr (set_count (1, 0) \<lparr>o_kind = StringObj ''abc'', o_count = 0, o_size = 32\<rparr> 1
                (snd (new_obj (StringObj ''abc'') 32 init_state)))
   \<and> OwnRef_dtor production_build (Some (1, 0))
         (set_count (1, 0) \<lparr>o_kind = StringObj ''abc'', o_count = 0, o_size = 32\<rparr> 2
            (snd (new_obj (StringObj ''abc'') 32 init_state)))
       = Inr (set_count (1, 0) \<lparr>o_kind = StringObj ''abc'', o_count = 0, o_size = 32\<rparr> 1
                (snd (new_obj (StringObj ''abc'') 32 init_state)))
   \<and> trace (set_count (1, 0) \<lparr>o_kind = StringObj ''abc'', o_count = 0, o_size = 32\<rparr> 1
              (snd (new_obj (StringObj ''abc'') 32 init_state))) = []
   \<and> string_at (set_count (1, 0) \<lparr>o_kind = StringObj ''abc'', o_count = 0, o_size = 32\<rparr> 1
              (snd (new_obj (StringObj ''abc'') 32 init_state))) (1, 0)
       = Inr \<lparr>o_kind = StringObj ''abc'', o_count = 1, o_size = 32\<rparr>"
  by (simp add: new_obj_def new_chars_def construct_def init_state_def obj_at_def
      diagnostic_build_def production_build_def is_string_def
      OwnRef_Take_def OwnSub_def String_Dec_def seq_def gel_assert_def
      string_at_def OwnRef_dtor_def OwnRefDec_def RefDec_def delete_obj_def
      set_count_def OwnRef_ctor_def OwnRefInc_def RefInc_def Ref_Init_def)

section \<open>C9: the counts never go negative\<close>

text \<open>
  C9, as amended. In a build that defines \<open>EXTRA_SAFE\<close>, a decrement of the advisory
  count (\<open>_Object::_PtrDec\<close>, in a \<open>MEMORY_SAFE\<close> build) or of the real count
  (\<open>String::_Dec\<close>) either stops the program with the fatal check, when the count is not
  positive, or leaves a count that is not negative.
\<close>

theorem decrement_checked_in_extra_safe:
  assumes "EXTRA_SAFE cfg"
  shows "(MEMORY_SAFE cfg \<and> obj_at st p = Inr ob \<longrightarrow>
            count_after p (PtrDec cfg p st) =
              (if 0 <s o_count ob then Inr (Some (o_count ob - 1))
               else Inl (Fatal ''internal ref count failure'')))
       \<and> (string_at st p = Inr ob \<longrightarrow>
            count_after p (String_Dec cfg p st) =
              (if 0 <s o_count ob then Inr (Some (o_count ob - 1))
               else Inl (Fatal ''internal string ref count failure'')))
       \<and> (0 <s o_count ob \<longrightarrow> 0 \<le>s o_count ob - 1)"
  using assms
  by (simp add: PtrDec_def String_Dec_def count_after_def seq_def gel_assert_def dec_nonneg)

theorem decrement_checked_in_extra_safe_witness:
  "EXTRA_SAFE checked_build \<and> MEMORY_SAFE checked_build
   \<and> obj_at (snd (new_obj (StringObj ''abc'') 24 init_state)) (1, 0)
       = Inr \<lparr>o_kind = StringObj ''abc'', o_count = 0, o_size = 24\<rparr>
   \<and> string_at (snd (new_obj (StringObj ''abc'') 24 init_state)) (1, 0)
       = Inr \<lparr>o_kind = StringObj ''abc'', o_count = 0, o_size = 24\<rparr>
   \<and> count_after (1, 0) (PtrDec checked_build (1, 0)
         (snd (new_obj (StringObj ''abc'') 24 init_state)))
       = Inl (Fatal ''internal ref count failure'')
   \<and> count_after (1, 0) (String_Dec checked_build (1, 0)
         (snd (new_obj (StringObj ''abc'') 24 init_state)))
       = Inl (Fatal ''internal string ref count failure'')
   \<and> obj_at (set_count (1, 0) \<lparr>o_kind = StringObj ''abc'', o_count = 0, o_size = 24\<rparr> 1
         (snd (new_obj (StringObj ''abc'') 24 init_state))) (1, 0)
       = Inr \<lparr>o_kind = StringObj ''abc'', o_count = 1, o_size = 24\<rparr>
   \<and> count_after (1, 0) (String_Dec checked_build (1, 0)
         (set_count (1, 0) \<lparr>o_kind = StringObj ''abc'', o_count = 0, o_size = 24\<rparr> 1
           (snd (new_obj (StringObj ''abc'') 24 init_state))))
       = Inr (Some 0)
   \<and> (0 :: 32 word) <s 1 \<and> (0 :: 32 word) \<le>s 1 - 1"
  using decrement_checked_in_extra_safe [of checked_build
      "snd (new_obj (StringObj ''abc'') 24 init_state)" "(1, 0)"
      "\<lparr>o_kind = StringObj ''abc'', o_count = 0, o_size = 24\<rparr>"]
    decrement_checked_in_extra_safe [of checked_build
      "set_count (1, 0) \<lparr>o_kind = StringObj ''abc'', o_count = 0, o_size = 24\<rparr> 1
         (snd (new_obj (StringObj ''abc'') 24 init_state))" "(1, 0)"
      "\<lparr>o_kind = StringObj ''abc'', o_count = 1, o_size = 24\<rparr>"]
  by (simp add: checked_build_def new_obj_def new_chars_def construct_def init_state_def
      obj_at_def string_at_def set_count_def word_sless_alt)

text \<open>
  C9 as stated fails in a diagnostic build that does not define \<open>EXTRA_SAFE\<close>: the
  decrement of a count of zero is not checked and leaves minus one.
\<close>

theorem unchecked_decrement_goes_negative:
  "MEMORY_SAFE diagnostic_build
   \<and> count_of (snd (new_obj PlainObject 16 init_state)) (1, 0) = Some 0
   \<and> count_after (1, 0) (PtrDec diagnostic_build (1, 0) (snd (new_obj PlainObject 16 init_state)))
       = Inr (Some (- 1))
   \<and> (- 1 :: 32 word) <s 0"
  by (simp add: count_after_def count_of_def PtrDec_def diagnostic_build_def new_obj_def
      new_chars_def construct_def init_state_def seq_def obj_at_def set_count_def)

section \<open>C10: the global strings\<close>

text \<open>
  C10. After static initialisation each of the four global strings (\<open><object>\<close>, the
  empty string, \<open>True\<close> and \<open>False\<close>) has the count 1. Any balanced sequence of copy
  constructions, reassignments and destructions of handles to one of them runs to its
  end, leaves the string in memory with a positive count (one plus the handles still
  alive) and destroys nothing. The sequence is shorter than \<open>2^31 - 1\<close>, so that the
  signed 32-bit count does not overflow, and the pointers it stores are null or strings.
\<close>

theorem global_strings_never_destroyed:
  assumes "static_init st = Inr st0"
    and "g \<in> {object_string, empty_string, true_string, false_string}"
    and "balanced g 0 ops" and "targets_ok st0 ops" and "length ops < 2 ^ 31 - 1"
  shows "count_of st0 g = Some 1
       \<and> (\<exists>st1 c. ref_run cfg g ops st0 = Inr st1 \<and> count_of st1 g = Some c
              \<and> sint c = 1 + int (copies ops) - int (drops g ops) \<and> 0 <s c
              \<and> mem st1 g \<noteq> None \<and> trace st1 = trace st0)"
proof -
  from assms(2) static_init_strings[OF assms(1)]
  obtain ob where s: "string_at st0 g = Inr ob" and c: "o_count ob = 1"
    by auto
  have one: "sint (o_count ob) = 1" using c by simp
  have "\<exists>st1 ob1. ref_run cfg g ops st0 = Inr st1 \<and> string_at st1 g = Inr ob1
           \<and> sint (o_count ob1) = sint (o_count ob) + int (copies ops) - int (drops g ops)
           \<and> 0 < sint (o_count ob1) \<and> trace st1 = trace st0"
  proof (rule balanced_run[OF s _ _ assms(3,4)])
    show "int 0 < sint (o_count ob)" using one by simp
    show "sint (o_count ob) + int (length ops) < 2 ^ 31" using one assms(5) by simp
  qed
  then obtain st1 ob1 where r: "ref_run cfg g ops st0 = Inr st1" "string_at st1 g = Inr ob1"
    "sint (o_count ob1) = sint (o_count ob) + int (copies ops) - int (drops g ops)"
    "0 < sint (o_count ob1)" "trace st1 = trace st0"
    by blast
  from r(2) have "count_of st1 g = Some (o_count ob1)" "mem st1 g \<noteq> None"
    by (simp_all add: string_at_mem count_of_def)
  with r one s c show ?thesis
    by (auto simp: string_at_mem count_of_def word_sless_alt)
qed

theorem global_strings_never_destroyed_witness:
  "static_init init_state = Inr static_state
   \<and> true_string \<in> {object_string, empty_string, true_string, false_string}
   \<and> balanced true_string 0
         [Copy, Copy, Drop, Reassign (Some empty_string), Copy, Reassign None]
   \<and> targets_ok static_state
         [Copy, Copy, Drop, Reassign (Some empty_string), Copy, Reassign None]
   \<and> length [Copy, Copy, Drop, Reassign (Some empty_string), Copy, Reassign None]
         < (2 :: nat) ^ 31 - 1
   \<and> count_of static_state true_string = Some 1
   \<and> count_after true_string
         (ref_run checked_build true_string
            [Copy, Copy, Drop, Reassign (Some empty_string), Copy, Reassign None] static_state)
       = Inr (Some 1)
   \<and> trace_after
         (ref_run checked_build true_string
            [Copy, Copy, Drop, Reassign (Some empty_string), Copy, Reassign None] static_state)
       = Inr []"
  using global_strings_never_destroyed [of init_state static_state true_string
      "[Copy, Copy, Drop, Reassign (Some empty_string), Copy, Reassign None]" checked_build]
  by (simp add: static_state_def static_init_def seq_def GlobalString_def RefInc_def
      construct_def set_count_def init_state_def object_string_def empty_string_def
      true_string_def false_string_def sizeof_String_def string_at_def is_string_at_def
      count_of_def count_after_def trace_after_def ref_step_def Ref_copy_def Ref_Init_def
      Ref_dtor_def Ref_assign_def RefDec_def String_Dec_def gel_assert_def checked_build_def
      word_sless_alt)

end
